theory Spec2Isabelle
  imports Complex_Main
begin

section \<open>Python values, errors and results\<close>

text \<open>
  The sources are Python 2 with NumPy (\<^verbatim>\<open>print\<close> statements, \<^verbatim>\<open>xrange\<close>), and both
  files start with \<^verbatim>\<open>from __future__ import division\<close>. An exception is a value of
  type \<open>error\<close>, carrying its message; a call that can raise returns \<open>error + 'a\<close>
  with \<open>Inl\<close> for the exception. A raise carries no state in the result. In the methods
  of the decision node the mutation of the object is the last statement before the
  return, so a call that raised has changed nothing. The methods of the solver can raise
  after they have printed or stored something; what such a call leaves behind is not
  followed.
\<close>

datatype error =
    AttributeError string
  | RuntimeError string
  | KeyError string
  | ValueError string
  | IndexError string
  | TypeError string
  | UnboundLocalError string
  | ZeroDivisionError string

definition bindE :: "'e + 'a \<Rightarrow> ('a \<Rightarrow> 'e + 'b) \<Rightarrow> 'e + 'b" where
  "bindE m f = (case m of Inl e \<Rightarrow> Inl e | Inr x \<Rightarrow> f x)"

text \<open>A list comprehension or a \<^verbatim>\<open>for\<close> loop whose body can raise: left to right, the
  first exception ends it.\<close>

fun mapE :: "('a \<Rightarrow> 'e + 'b) \<Rightarrow> 'a list \<Rightarrow> 'e + 'b list" where
  "mapE f [] = Inr []"
| "mapE f (x # xs) = bindE (f x) (\<lambda>y. bindE (mapE f xs) (\<lambda>ys. Inr (y # ys)))"

text \<open>A loop that threads the state through its body.\<close>

fun forE :: "('s \<Rightarrow> 'a \<Rightarrow> 'e + 's) \<Rightarrow> 'a list \<Rightarrow> 's \<Rightarrow> 'e + 's" where
  "forE body [] s = Inr s"
| "forE body (x # xs) s = bindE (body s x) (forE body xs)"

text \<open>The first position whose element satisfies \<open>P\<close>, if any; \<^verbatim>\<open>list.index(x)\<close> is the
  first position of \<open>x\<close>.\<close>

fun first_where :: "('a \<Rightarrow> bool) \<Rightarrow> 'a list \<Rightarrow> nat option" where
  "first_where P [] = None"
| "first_where P (x # xs) = (if P x then Some 0 else map_option Suc (first_where P xs))"

definition index_of :: "'a list \<Rightarrow> 'a \<Rightarrow> nat option" where
  "index_of xs v = first_where (\<lambda>x. x = v) xs"

text \<open>
  A Python number is an \<^verbatim>\<open>int\<close> or a \<^verbatim>\<open>float\<close>. Under the future import, \<^verbatim>\<open>/\<close> on two
  ints is true division and yields a float, whatever the operands. \<^verbatim>\<open>xrange\<close> takes an
  int: given a float, Python 2.7 raises TypeError (integer argument expected, got float).
\<close>

datatype pynum = PyInt int | PyFloat real

definition true_div :: "int \<Rightarrow> int \<Rightarrow> error + pynum" where
  "true_div a b =
     (if b = 0 then Inl (ZeroDivisionError ''division by zero'')
      else Inr (PyFloat (real_of_int a / real_of_int b)))"

fun xrange :: "pynum \<Rightarrow> error + nat list" where
  "xrange (PyInt n) = Inr [0..<nat n]"
| "xrange (PyFloat x) = Inl (TypeError ''integer argument expected, got float'')"

text \<open>\<^verbatim>\<open>str\<close> of an integer: its decimal digits, with a minus sign when negative.\<close>

definition digit_char :: "nat \<Rightarrow> char" where
  "digit_char d = char_of (48 + d)"

function str_nat :: "nat \<Rightarrow> string" where
  "str_nat n = (if n < 10 then [digit_char n] else str_nat (n div 10) @ [digit_char (n mod 10)])"
  by pat_completeness auto
termination
  by (relation "measure id") auto

declare str_nat.simps [simp del]

definition str_int :: "int \<Rightarrow> string" where
  "str_int i = (if i < 0 then CHR ''-'' # str_nat (nat (- i)) else str_nat (nat i))"

section \<open>NumPy arrays\<close>

text \<open>
  An array is its shape and its elements in row-major (C) order; NumPy keeps
  \<open>length (data a) = prod_list (shape a)\<close>. A 0-d array (shape \<open>[]\<close>) holds one element
  and stands for a NumPy scalar.
\<close>

record 'a ndarray =
  shape :: "nat list"
  data :: "'a list"

definition wf_array :: "'a ndarray \<Rightarrow> bool" where
  "wf_array a = (length (data a) = prod_list (shape a))"

definition zeros :: "nat list \<Rightarrow> real ndarray" where
  "zeros shp = \<lparr>shape = shp, data = replicate (prod_list shp) 0\<rparr>"

text \<open>\<^verbatim>\<open>a.any()\<close>: some element is non-zero.\<close>

definition any_nonzero :: "real ndarray \<Rightarrow> bool" where
  "any_nonzero a = list_ex (\<lambda>x. x \<noteq> 0) (data a)"

text \<open>
  \<^verbatim>\<open>a[indo]\<close> for a tuple \<open>indo\<close> of non-negative ints (the positions \<^verbatim>\<open>list.index\<close>
  returns): the indices address the leading axes. \<open>index_block\<close> returns the number of
  the addressed block among the blocks of its size and the shape that is left; an index
  beyond its axis, or more indices than axes, is an IndexError.
\<close>

fun index_block :: "nat list \<Rightarrow> nat list \<Rightarrow> nat \<Rightarrow> (nat \<times> nat list) option" where
  "index_block shp [] off = Some (off, shp)"
| "index_block [] (i # ind) off = None"
| "index_block (d # shp) (i # ind) off =
     (if i < d then index_block shp ind (off * d + i) else None)"

definition getitem :: "'a ndarray \<Rightarrow> nat list \<Rightarrow> error + 'a ndarray" where
  "getitem a ind =
     (case index_block (shape a) ind 0 of
        None \<Rightarrow> Inl (IndexError ''index out of bounds'')
      | Some (off, rest) \<Rightarrow>
          Inr \<lparr>shape = rest,
               data = take (prod_list rest) (drop (off * prod_list rest) (data a))\<rparr>)"

text \<open>\<^verbatim>\<open>a[indo] = new\<close> in place, where \<open>new\<close> holds the elements of a block of the
  addressed shape.\<close>

definition setitem :: "'a ndarray \<Rightarrow> nat list \<Rightarrow> 'a list \<Rightarrow> error + 'a ndarray" where
  "setitem a ind new =
     (case index_block (shape a) ind 0 of
        None \<Rightarrow> Inl (IndexError ''index out of bounds'')
      | Some (off, rest) \<Rightarrow>
          Inr (a\<lparr>data := take (off * prod_list rest) (data a) @ new @
                         drop (off * prod_list rest + prod_list rest) (data a)\<rparr>))"

text \<open>The trailing-axis slices of an array, in order: its rows. A 0-d array is one row
  of one element.\<close>

definition last_dim :: "nat list \<Rightarrow> nat" where
  "last_dim shp = (if shp = [] then 1 else last shp)"

definition nrows :: "nat list \<Rightarrow> nat" where
  "nrows shp = prod_list (butlast shp)"

definition row :: "'a ndarray \<Rightarrow> nat \<Rightarrow> 'a list" where
  "row a i = take (last_dim (shape a)) (drop (i * last_dim (shape a)) (data a))"

definition rows :: "'a ndarray \<Rightarrow> 'a list list" where
  "rows a = map (row a) [0..<nrows (shape a)]"

text \<open>\<^verbatim>\<open>np.cumsum\<close>, \<^verbatim>\<open>np.nonzero(cdf >= cutoff)[0][0]\<close> and \<^verbatim>\<open>argmax\<close> (the first
  position of the maximum) on the flattened elements.\<close>

fun cumsum_from :: "real \<Rightarrow> real list \<Rightarrow> real list" where
  "cumsum_from acc [] = []"
| "cumsum_from acc (x # xs) = (acc + x) # cumsum_from (acc + x) xs"

definition cumsum :: "real list \<Rightarrow> real list" where
  "cumsum xs = cumsum_from 0 xs"

definition first_ge :: "real list \<Rightarrow> real \<Rightarrow> error + nat" where
  "first_ge cdf cutoff =
     (case first_where (\<lambda>c. c \<ge> cutoff) cdf of
        None \<Rightarrow> Inl (IndexError ''index 0 is out of bounds for axis 0 with size 0'')
      | Some i \<Rightarrow> Inr i)"

definition argmax :: "real list \<Rightarrow> error + nat" where
  "argmax xs =
     (if xs = [] then Inl (ValueError ''attempt to get argmax of an empty sequence'')
      else case first_where (\<lambda>x. x = Max (set xs)) xs of
             None \<Rightarrow> Inl (ValueError ''attempt to get argmax of an empty sequence'')
           | Some i \<Rightarrow> Inr i)"

text \<open>\<^verbatim>\<open>np.diff\<close> along the last axis of one row.\<close>

fun diff :: "real list \<Rightarrow> real list" where
  "diff (x # y # ys) = (y - x) # diff (y # ys)"
| "diff xs = []"

text \<open>\<^verbatim>\<open>np.log\<close> of one element: minus infinity at zero, nan below it (NumPy warns and
  goes on).\<close>

datatype xreal = NegInf | Finite real | NaN

definition np_log :: "real \<Rightarrow> xreal" where
  "np_log r = (if r = 0 then NegInf else if r < 0 then NaN else Finite (ln r))"

section \<open>The store of arrays\<close>

text \<open>
  Python variables and attributes hold references. \<open>perturbCPT\<close> binds a local name to
  the array of \<^verbatim>\<open>self.CPT\<close> and assigns into it, so arrays live in a store and a node
  holds the address of its CPT. \<open>fresh\<close> is the next unused address.
\<close>

type_synonym addr = nat

record heap =
  cells :: "addr \<Rightarrow> real ndarray"
  fresh :: addr

definition alloc :: "real ndarray \<Rightarrow> heap \<Rightarrow> addr \<times> heap" where
  "alloc a h = (fresh h, h\<lparr>cells := (cells h)(fresh h := a), fresh := Suc (fresh h)\<rparr>)"

section \<open>The decision node\<close>

text \<open>
  A value of a space is a plain Python number or a NumPy array (a vector-valued
  element). \<^verbatim>\<open>(x == v).all()\<close>, as \<open>perturbCPT\<close> writes it, needs the comparison to give
  an array: on two plain numbers \<^verbatim>\<open>==\<close> is a \<^verbatim>\<open>bool\<close>, which has no \<^verbatim>\<open>all\<close>; so has the
  comparison of two arrays whose shapes do not broadcast.
\<close>

datatype val = PyVal int | NpVal "int list"

fun eq_all :: "val \<Rightarrow> val \<Rightarrow> error + bool" where
  "eq_all (PyVal a) (PyVal b) = Inl (AttributeError ''bool object has no attribute all'')"
| "eq_all (PyVal a) (NpVal ys) = Inr (list_all (\<lambda>y. a = y) ys)"
| "eq_all (NpVal xs) (PyVal b) = Inr (list_all (\<lambda>x. x = b) xs)"
| "eq_all (NpVal xs) (NpVal ys) =
     (if length xs = length ys then Inr (xs = ys)
      else if length xs = 1 then Inr (list_all (\<lambda>y. hd xs = y) ys)
      else if length ys = 1 then Inr (list_all (\<lambda>x. x = hd ys) xs)
      else Inl (AttributeError ''bool object has no attribute all''))"

text \<open>What a decision node reads of a parent: its space and its current value.\<close>

record pnode =
  pspace :: "val list"
  pvalue :: val

text \<open>
  \<open>parents\<close> is the ordered dictionary from parent names to parents. The fields from
  \<open>Level\<close> on are the attributes the level-K solver attaches to a node after its
  construction; \<open>None\<close> is an attribute that was never set. \<open>value'\<close> is the attribute
  \<^verbatim>\<open>value\<close>.
\<close>

record dnode =
  name :: string
  player :: string
  space :: "val list"
  parents :: "(string \<times> pnode) list"
  value' :: val
  CPT :: addr
  Level :: "int option"
  delta :: "real option"
  tol :: "real option"
  N :: "int option"
  beta :: "real option"
  LevelCPT :: "(string \<rightharpoonup> addr) option"

text \<open>\<open>_createCPT\<close>: the sizes of the parents' spaces in order, then the size of the own
  space; all zeros.\<close>

definition CPT_shape :: "dnode \<Rightarrow> nat list" where
  "CPT_shape n = map (\<lambda>(par, p). length (pspace p)) (parents n) @ [length (space n)]"

definition createCPT :: "dnode \<times> heap \<Rightarrow> dnode \<times> heap" where
  "createCPT = (\<lambda>(n, h). let (a, h') = alloc (zeros (CPT_shape n)) h in (n\<lparr>CPT := a\<rparr>, h'))"

text \<open>
  Modelled from the spec: \<open>dict2list_vals\<close> and \<open>get_CPTindex\<close> are methods of the base
  class in \<^verbatim>\<open>node.py\<close>, which is not among the sources. Index resolution takes an
  explicit or implicit value for every parent (a parent absent from the caller's mapping
  falls back to its current value) and, optionally, a value for the node itself, and
  resolves each value to its position in the corresponding space by the equality rule
  (scalar equality, elementwise equality for vectors). A value that is in no position has
  no index: ValueError, as \<^verbatim>\<open>list.index\<close> raises in \<open>perturbCPT\<close>.
\<close>

definition dict2list_vals :: "dnode \<Rightarrow> (string \<times> val) list \<Rightarrow> val option \<Rightarrow> val list" where
  "dict2list_vals n parentinput valueinput =
     map (\<lambda>(par, p). case map_of parentinput par of Some v \<Rightarrow> v | None \<Rightarrow> pvalue p) (parents n)
     @ (case valueinput of None \<Rightarrow> [] | Some v \<Rightarrow> [v])"

definition position :: "val list \<Rightarrow> val \<Rightarrow> error + nat" where
  "position spc v =
     (case index_of spc v of
        None \<Rightarrow> Inl (ValueError ''value is not in the space'')
      | Some i \<Rightarrow> Inr i)"

definition get_CPTindex :: "dnode \<Rightarrow> val list \<Rightarrow> bool \<Rightarrow> error + nat list" where
  "get_CPTindex n values onlyparents =
     mapE (\<lambda>(spc, v). position spc v)
       (zip (map (\<lambda>(par, p). pspace p) (parents n) @ (if onlyparents then [] else [space n]))
            values)"

definition zeros_msg :: "dnode \<Rightarrow> string" where
  "zeros_msg n = ''CPT for '' @ name n @ '' is just a zeros array''"

text \<open>\<^verbatim>\<open>self.space[idx]\<close> for an index that is not negative.\<close>

definition space_at :: "val list \<Rightarrow> nat \<Rightarrow> error + val" where
  "space_at spc idx =
     (if idx < length spc then Inr (spc ! idx) else Inl (IndexError ''list index out of range''))"

text \<open>\<open>draw_value\<close>; \<open>cutoff\<close> is what \<^verbatim>\<open>np.random.rand()\<close> returns, a number in \<open>[0, 1)\<close>.\<close>

definition draw_value ::
  "(string \<times> val) list \<Rightarrow> bool \<Rightarrow> bool \<Rightarrow> real \<Rightarrow> dnode \<times> heap \<Rightarrow> error + (val \<times> dnode)" where
  "draw_value parentinput setvalue mode cutoff = (\<lambda>(n, h).
     if \<not> any_nonzero (cells h (CPT n)) then Inl (AttributeError (zeros_msg n))
     else
       let valslist = dict2list_vals n parentinput None in
       bindE (get_CPTindex n valslist True) (\<lambda>indo.
       bindE (getitem (cells h (CPT n)) indo) (\<lambda>slice.
       bindE (if \<not> mode then first_ge (cumsum (data slice)) cutoff
              else argmax (data slice)) (\<lambda>idx.
       bindE (space_at (space n) idx) (\<lambda>r.
         if setvalue then Inr (r, n\<lparr>value' := r\<rparr>) else Inr (r, n))))))"

text \<open>\<open>prob\<close> and \<open>logprob\<close>. The entry is returned as NumPy returns it: a scalar (0-d) when
  the index addresses every axis.\<close>

definition prob ::
  "(string \<times> val) list \<Rightarrow> val option \<Rightarrow> dnode \<times> heap \<Rightarrow> error + real ndarray" where
  "prob parentinput valueinput = (\<lambda>(n, h).
     if \<not> any_nonzero (cells h (CPT n)) then Inl (RuntimeError (zeros_msg n))
     else
       let valueinput1 = (case valueinput of None \<Rightarrow> value' n | Some v \<Rightarrow> v);
           valslist = dict2list_vals n parentinput (Some valueinput1)
       in bindE (get_CPTindex n valslist False) (\<lambda>indo. getitem (cells h (CPT n)) indo))"

definition logprob ::
  "(string \<times> val) list \<Rightarrow> val option \<Rightarrow> dnode \<times> heap \<Rightarrow> error + xreal ndarray" where
  "logprob parentinput valueinput nh =
     bindE (prob parentinput valueinput nh)
       (\<lambda>r. Inr \<lparr>shape = shape r, data = map np_log (data r)\<rparr>)"

subsection \<open>Generating a CPT\<close>

text \<open>
  The random draws are arguments: \<open>rnd\<close> is the flat array \<^verbatim>\<open>randint.rvs\<close> returns (for
  \<^verbatim>\<open>randint.rvs(lo, hi, ...)\<close> every draw is in \<open>[lo, hi)\<close>), and \<open>u j\<close> is the \<open>j\<close>-th
  \<^verbatim>\<open>np.random.rand()\<close>. A method returns the reference of the array it built, or \<open>None\<close>
  when it stored it in \<^verbatim>\<open>self.CPT\<close>.
\<close>

definition one_hot :: "nat \<Rightarrow> int \<Rightarrow> real list" where
  "one_hot k y = map (\<lambda>j. if int j = y then 1 else 0) [0..<k]"

definition pure_random :: "nat list \<Rightarrow> (nat \<Rightarrow> int) \<Rightarrow> error + real ndarray" where
  "pure_random shp rnd =
     (let shape_last = last shp; m = nrows shp in
      if shape_last = 0 then Inl (ValueError ''Domain error in arguments.'')
      else if m = 0 then Inl (IndexError ''index 0 is out of bounds for axis 0 with size 0'')
      else Inr \<lparr>shape = shp, data = concat (map (\<lambda>i. one_hot shape_last (rnd i)) [0..<m])\<rparr>)"

definition M :: real where
  "M = 100000000"

text \<open>One row of the mixed CPT: the draws between the boundary points 0 and \<open>M\<close>, sorted;
  the consecutive differences over \<open>M\<close>.\<close>

definition stick_row :: "int list \<Rightarrow> real list" where
  "stick_row x = map (\<lambda>d. d / M) (diff (sort (0 # map real_of_int x @ [M])))"

definition mixed_random :: "nat list \<Rightarrow> (nat \<Rightarrow> int) \<Rightarrow> error + real ndarray" where
  "mixed_random shp rnd =
     (let shape_last = last shp; m = nrows shp in
      if shape_last = 0 then Inl (ValueError ''negative dimensions are not allowed'')
      else Inr \<lparr>shape = shp,
                data = concat (map (\<lambda>i. stick_row (map (\<lambda>j. rnd (i * (shape_last - 1) + j))
                                                    [0..<shape_last - 1])) [0..<m])\<rparr>)"

definition randomCPT ::
  "bool \<Rightarrow> bool \<Rightarrow> (nat \<Rightarrow> int) \<Rightarrow> dnode \<times> heap \<Rightarrow> error + (addr option \<times> dnode \<times> heap)" where
  "randomCPT mixed setCPT rnd = (\<lambda>(n, h).
     let CPTshape = shape (cells h (CPT n)) in
     if CPTshape = [] then Inl (IndexError ''tuple index out of range'')
     else bindE (if \<not> mixed then pure_random CPTshape rnd else mixed_random CPTshape rnd)
       (\<lambda>z. let (a, h1) = alloc z h in
             if setCPT then Inr (None, n\<lparr>CPT := a\<rparr>, h1) else Inr (Some a, n, h1)))"

text \<open>\<^verbatim>\<open>z = np.zeros(shape); z += 1/shape[-1]\<close>, where the division is a true division.\<close>

definition uniform_array :: "nat list \<Rightarrow> real ndarray" where
  "uniform_array shp =
     \<lparr>shape = shp, data = map (\<lambda>x. x + 1 / real (last shp)) (data (zeros shp))\<rparr>"

definition uniformCPT ::
  "bool \<Rightarrow> dnode \<times> heap \<Rightarrow> error + (addr option \<times> dnode \<times> heap)" where
  "uniformCPT setCPT = (\<lambda>(n, h).
     let CPTshape = shape (cells h (CPT n)) in
     if CPTshape = [] then Inl (IndexError ''tuple index out of range'')
     else if last CPTshape = 0 then Inl (ZeroDivisionError ''division by zero'')
     else
       let (a, h1) = alloc (uniform_array CPTshape) h
       in if setCPT then Inr (None, n\<lparr>CPT := a\<rparr>, h1) else Inr (Some a, n, h1))"

subsection \<open>Perturbing a CPT\<close>

text \<open>\<^verbatim>\<open>flat[a:b] = src\<close> on 1-d arrays: the slice is clipped to the array, and \<open>src\<close> must
  have its length or length 1 (broadcast).\<close>

definition slice_assign :: "real list \<Rightarrow> nat \<Rightarrow> nat \<Rightarrow> real list \<Rightarrow> error + real list" where
  "slice_assign flat a b src =
     (let a1 = min a (length flat); b1 = max a1 (min b (length flat)); w = b1 - a1 in
      if length src = w then Inr (take a1 flat @ src @ drop b1 flat)
      else if length src = 1 then Inr (take a1 flat @ replicate w (hd src) @ drop b1 flat)
      else Inl (ValueError ''could not broadcast input array''))"

text \<open>The body of the loop of the pure branch, over the values \<open>js\<close> of \<open>j\<close>.\<close>

fun pure_shift ::
  "real \<Rightarrow> nat \<Rightarrow> (nat \<Rightarrow> real) \<Rightarrow> real list \<Rightarrow> nat list \<Rightarrow> real list \<Rightarrow> error + real list" where
  "pure_shift noise shape_last u flatalt [] flat = Inr flat"
| "pure_shift noise shape_last u flatalt (j # js) flat =
     (if u j < noise
      then bindE (slice_assign flat (j * shape_last) ((j + 1) * shape_last - 1)
                    (take shape_last (drop (j * shape_last) flatalt)))
             (pure_shift noise shape_last u flatalt js)
      else pure_shift noise shape_last u flatalt js flat)"

text \<open>\<^verbatim>\<open>[(x == v).all() for x in space]\<close> and \<^verbatim>\<open>truth.index(True)\<close>.\<close>

definition truth_index :: "val list \<Rightarrow> val \<Rightarrow> error + nat" where
  "truth_index spc v =
     bindE (mapE (\<lambda>x. eq_all x v) spc)
       (\<lambda>truth. case index_of truth True of
                   None \<Rightarrow> Inl (ValueError ''True is not in list'')
                 | Some i \<Rightarrow> Inr i)"

text \<open>The index of the sliver: for each parent in order, the position of the sliver's
  value for it, or of the parent's current value.\<close>

definition sliver_index :: "dnode \<Rightarrow> (string \<times> val) list \<Rightarrow> error + nat list" where
  "sliver_index n sliver =
     mapE (\<lambda>(par, p). case map_of sliver par of
                         Some v \<Rightarrow> truth_index (pspace p) v
                       | None \<Rightarrow> truth_index (pspace p) (pvalue p))
       (parents n)"

text \<open>\<^verbatim>\<open>c*(1-noise) + r*noise\<close> on the elements of two arrays of one shape.\<close>

definition blend :: "real \<Rightarrow> real list \<Rightarrow> real list \<Rightarrow> real list" where
  "blend noise c r = map2 (\<lambda>x y. x * (1 - noise) + y * noise) c r"

text \<open>
  \<open>perturbCPT\<close>. The dictionary \<open>sliver\<close> is an association list; \<^verbatim>\<open>not sliver\<close> holds
  for \<^verbatim>\<open>None\<close> and for the empty dictionary. Each branch returns the binding of the local
  \<open>z\<close>: a reference, or \<open>None\<close> when the branch never assigned it. In the pure branch
  \<^verbatim>\<open>steps = len(flat)/shape_last\<close> is a true division.
\<close>

definition perturb_pure ::
  "real \<Rightarrow> (string \<times> val) list \<Rightarrow> (nat \<Rightarrow> int) \<Rightarrow> (nat \<Rightarrow> real) \<Rightarrow> dnode \<times> heap
     \<Rightarrow> error + (addr option \<times> dnode \<times> heap)" where
  "perturb_pure noise sliver rnd u = (\<lambda>(n, h).
     if sliver = [] then
       if shape (cells h (CPT n)) = [] then Inl (IndexError ''tuple index out of range'')
       else
         let shape_last = last (shape (cells h (CPT n))) in
         bindE (randomCPT False False rnd (n, h)) (\<lambda>(altCPT, n1, h1).
           case altCPT of
             None \<Rightarrow> Inl (AttributeError ''NoneType object has no attribute flatten'')
           | Some alt \<Rightarrow>
               let flat = data (cells h1 (CPT n1)); flatalt = data (cells h1 alt) in
               bindE (true_div (int (length flat)) (int shape_last)) (\<lambda>steps.
               bindE (xrange steps) (\<lambda>js.
               bindE (pure_shift noise shape_last u flatalt js flat) (\<lambda>flat1.
                 let (z, h2) = alloc \<lparr>shape = shape (cells h1 (CPT n1)), data = flat1\<rparr> h1
                 in Inr (Some z, n1, h2)))))
     else Inr (None, n, h))"

definition perturb_mixed ::
  "real \<Rightarrow> (string \<times> val) list \<Rightarrow> (nat \<Rightarrow> int) \<Rightarrow> dnode \<times> heap
     \<Rightarrow> error + (addr option \<times> dnode \<times> heap)" where
  "perturb_mixed noise sliver rnd = (\<lambda>(n, h).
     bindE (randomCPT True False rnd (n, h)) (\<lambda>(randCPT, n1, h1).
       case randCPT of
         None \<Rightarrow> Inl (TypeError ''unsupported operand type(s) for *: NoneType and float'')
       | Some r \<Rightarrow>
           if sliver = [] then
             let (z, h2) = alloc \<lparr>shape = shape (cells h1 (CPT n1)),
                                   data = blend noise (data (cells h1 (CPT n1))) (data (cells h1 r))\<rparr> h1
             in Inr (Some z, n1, h2)
           else
             bindE (sliver_index n1 sliver) (\<lambda>indo.
               let z = CPT n1 in
               bindE (getitem (cells h1 z) indo) (\<lambda>zb.
               bindE (getitem (cells h1 r) indo) (\<lambda>rb.
               bindE (setitem (cells h1 z) indo (blend noise (data zb) (data rb))) (\<lambda>z1.
                 Inr (Some z, n1, h1\<lparr>cells := (cells h1)(z := z1)\<rparr>)))))))"

definition perturbCPT ::
  "real \<Rightarrow> bool \<Rightarrow> (string \<times> val) list \<Rightarrow> bool \<Rightarrow> (nat \<Rightarrow> int) \<Rightarrow> (nat \<Rightarrow> real) \<Rightarrow> dnode \<times> heap
     \<Rightarrow> error + (addr option \<times> dnode \<times> heap)" where
  "perturbCPT noise mixed sliver setCPT rnd u nh =
     bindE (if \<not> mixed then perturb_pure noise sliver rnd u nh
            else perturb_mixed noise sliver rnd nh) (\<lambda>(zbound, n1, h1).
       case zbound of
         None \<Rightarrow> Inl (UnboundLocalError ''local variable z referenced before assignment'')
       | Some z \<Rightarrow> if setCPT then Inr (None, n1\<lparr>CPT := z\<rparr>, h1) else Inr (Some z, n1, h1))"

section \<open>The level-K best response solver\<close>

text \<open>
  The game class is not among the sources; the solver reads three attributes of a game:
  \<open>node_dict\<close>, the dictionary from node names to nodes (decision nodes and others),
  \<open>players\<close>, and \<open>partition\<close>, the dictionary from a player to the nodes it controls.
  The nodes of \<open>partition\<close> are the node objects of \<open>node_dict\<close>, so the model lists them
  by name and reads and writes them through \<open>node_dict\<close>.
\<close>

datatype gnode = DecisionNode dnode | OtherNode pnode

record game =
  node_dict :: "(string \<times> gnode) list"
  players :: "string list"
  partition :: "(string \<times> string list) list"

text \<open>The configuration table: per player \<^verbatim>\<open>Level\<close> and \<^verbatim>\<open>delta\<close>, and per node of the
  player \<^verbatim>\<open>tol\<close>, \<^verbatim>\<open>N\<close>, \<^verbatim>\<open>L0Dist\<close> and, for the logit rule, \<^verbatim>\<open>beta\<close>. \<^verbatim>\<open>L0Dist\<close> is the
  string \<^verbatim>\<open>'uniform'\<close>, \<^verbatim>\<open>None\<close>, an array, or anything else.\<close>

datatype l0dist = L0Uniform | L0None | L0Array addr | L0Other

record nodespec =
  spec_tol :: real
  spec_N :: int
  spec_L0Dist :: l0dist
  spec_beta :: "real option"

record playerspec =
  spec_Level :: int
  spec_delta :: real
  spec_nodes :: "(string \<times> nodespec) list"

text \<open>A session: the attributes of the \<open>BestResponse\<close> object, the store of arrays, and
  what the session has printed and warned.\<close>

record BestResponse =
  G :: game
  logit :: bool
  specs :: "(string \<times> playerspec) list"
  high_level :: int
  mem :: heap
  stdout :: "string list"
  warnings :: "string list"

text \<open>The estimator \<^verbatim>\<open>mceu(G, nodename, N, tol, delta)\<close> is a parameter: it returns a table
  of expected utilities.\<close>

type_synonym estimator = "game \<Rightarrow> heap \<Rightarrow> string \<Rightarrow> int \<Rightarrow> real \<Rightarrow> real \<Rightarrow> real ndarray"

text \<open>
  Modelled from the spec: \<open>convert_2_pureCPT\<close> is a function of the utilities module,
  which is not among the sources. Given a table of expected utilities it returns the
  table that, in every parent-configuration slice, has 1 at the arg-max action (the first
  one on ties) and 0 elsewhere.
\<close>

definition pure_row :: "real list \<Rightarrow> real list" where
  "pure_row r = (case argmax r of Inl e \<Rightarrow> [] | Inr i \<Rightarrow> one_hot (length r) (int i))"

definition convert_2_pureCPT :: "real ndarray \<Rightarrow> real ndarray" where
  "convert_2_pureCPT eu = \<lparr>shape = shape eu, data = concat (map pure_row (rows eu))\<rparr>"

text \<open>The logit rule: \<^verbatim>\<open>weight = np.exp(beta*EUtable)\<close>, each slice over its sum.\<close>

definition logit_row :: "real \<Rightarrow> real list \<Rightarrow> real list" where
  "logit_row b r = (let weight = map (\<lambda>x. exp (b * x)) r in map (\<lambda>w. w / sum_list weight) weight)"

definition logit_CPT :: "real \<Rightarrow> real ndarray \<Rightarrow> real ndarray" where
  "logit_CPT b eu = \<lparr>shape = shape eu, data = concat (map (logit_row b) (rows eu))\<rparr>"

subsection \<open>Dictionaries and attributes\<close>

definition lookup_key :: "(string \<times> 'a) list \<Rightarrow> string \<Rightarrow> error + 'a" where
  "lookup_key d k = (case map_of d k of None \<Rightarrow> Inl (KeyError k) | Some v \<Rightarrow> Inr v)"

text \<open>Reading an attribute the solver attaches: AttributeError when it was never set, or
  when the node is not a decision node.\<close>

definition attr :: "string \<Rightarrow> (dnode \<Rightarrow> 'a option) \<Rightarrow> gnode \<Rightarrow> error + 'a" where
  "attr nm f g =
     (case g of
        DecisionNode n \<Rightarrow> (case f n of None \<Rightarrow> Inl (AttributeError nm) | Some v \<Rightarrow> Inr v)
      | OtherNode p \<Rightarrow> Inl (AttributeError nm))"

text \<open>Mutating the object that a dictionary holds under a key: the entry a lookup
  finds.\<close>

fun mutate :: "string \<Rightarrow> ('a \<Rightarrow> 'a) \<Rightarrow> (string \<times> 'a) list \<Rightarrow> (string \<times> 'a) list" where
  "mutate k f [] = []"
| "mutate k f ((k1, v) # d) = (if k1 = k then (k1, f v) # d else (k1, v) # mutate k f d)"

definition upd_gnode :: "(dnode \<Rightarrow> dnode) \<Rightarrow> gnode \<Rightarrow> gnode" where
  "upd_gnode f g = (case g of DecisionNode n \<Rightarrow> DecisionNode (f n) | OtherNode p \<Rightarrow> OtherNode p)"

definition upd_node :: "string \<Rightarrow> (dnode \<Rightarrow> dnode) \<Rightarrow> game \<Rightarrow> game" where
  "upd_node k f g = g\<lparr>node_dict := mutate k (upd_gnode f) (node_dict g)\<rparr>"

definition level_key :: "int \<Rightarrow> string" where
  "level_key level = ''Level'' @ str_int level"

subsection \<open>Construction: the attributes and the level-0 policies\<close>

definition set_attributes_node :: "bool \<Rightarrow> playerspec \<Rightarrow> game \<Rightarrow> string \<Rightarrow> error + game" where
  "set_attributes_node lgt ps g nodename =
     bindE (lookup_key (spec_nodes ps) nodename) (\<lambda>ns.
     bindE (if lgt then (case spec_beta ns of None \<Rightarrow> Inl (KeyError ''beta'') | Some b \<Rightarrow> Inr (Some b))
            else Inr None) (\<lambda>b.
       Inr (upd_node nodename
              (\<lambda>n. n\<lparr>Level := Some (spec_Level ps), delta := Some (spec_delta ps),
                     tol := Some (spec_tol ns), N := Some (spec_N ns),
                     beta := (if lgt then b else beta n),
                     LevelCPT := (case LevelCPT n of None \<Rightarrow> Some Map.empty | Some lc \<Rightarrow> Some lc)\<rparr>)
              g)))"

definition set_new_attributes :: "BestResponse \<Rightarrow> error + (int \<times> BestResponse)" where
  "set_new_attributes s =
     bindE (forE (\<lambda>(g, levels) (pl, ps).
                    bindE (lookup_key (partition g) pl) (\<lambda>node_set.
                    bindE (forE (set_attributes_node (logit s) ps) node_set g) (\<lambda>g1.
                      Inr (g1, levels @ [spec_Level ps]))))
              (specs s) (G s, []))
       (\<lambda>(g1, levels).
          if levels = [] then Inl (ValueError ''max() arg is an empty sequence'')
          else Inr (Max (set levels), s\<lparr>G := g1\<rparr>))"

definition L0_warning :: "string \<Rightarrow> string" where
  "L0_warning pl =
     ''No entry for L0Dist for player '' @ pl @
     '',                        setting to current CPT''"

definition set_L0_node :: "string \<times> playerspec \<Rightarrow> BestResponse \<Rightarrow> string \<Rightarrow> error + BestResponse" where
  "set_L0_node = (\<lambda>(pl, ps) s nodename.
     bindE (lookup_key (node_dict (G s)) nodename) (\<lambda>node.
     bindE (attr ''LevelCPT'' LevelCPT node) (\<lambda>lc.
       case lc ''Level0'' of
         Some a \<Rightarrow> Inr s
       | None \<Rightarrow>
           bindE (lookup_key (spec_nodes ps) nodename) (\<lambda>ns.
             case spec_L0Dist ns of
               L0Uniform \<Rightarrow>
                 (case node of
                    OtherNode p \<Rightarrow> Inl (AttributeError ''uniformCPT'')
                  | DecisionNode n \<Rightarrow>
                      bindE (uniformCPT False (n, mem s)) (\<lambda>(z, n1, h1).
                        Inr (s\<lparr>G := upd_node nodename (\<lambda>n. n\<lparr>LevelCPT := Some (lc(''Level0'' := z))\<rparr>) (G s),
                               mem := h1\<rparr>)))
             | L0None \<Rightarrow>
                 (case node of
                    OtherNode p \<Rightarrow> Inl (AttributeError ''CPT'')
                  | DecisionNode n \<Rightarrow>
                      Inr (s\<lparr>G := upd_node nodename (\<lambda>n. n\<lparr>LevelCPT := Some (lc(''Level0'' \<mapsto> CPT n))\<rparr>) (G s),
                             warnings := warnings s @ [L0_warning pl]\<rparr>))
             | L0Array a \<Rightarrow>
                 Inr (s\<lparr>G := upd_node nodename (\<lambda>n. n\<lparr>LevelCPT := Some (lc(''Level0'' \<mapsto> a))\<rparr>) (G s)\<rparr>)
             | L0Other \<Rightarrow> Inr s))))"

definition set_L0_CPT :: "BestResponse \<Rightarrow> error + BestResponse" where
  "set_L0_CPT s =
     forE (\<lambda>s1 (pl, ps).
             bindE (lookup_key (partition (G s1)) pl) (\<lambda>node_set.
               forE (set_L0_node (pl, ps)) node_set s1))
       (specs s) s"

text \<open>\<open>__init__\<close>: the session works on its own deep copy of the game and of its arrays.\<close>

definition BestResponse_init ::
  "game \<Rightarrow> heap \<Rightarrow> (string \<times> playerspec) list \<Rightarrow> bool \<Rightarrow> error + BestResponse" where
  "BestResponse_init g h sp lgt =
     bindE (set_new_attributes \<lparr>G = g, logit = lgt, specs = sp, high_level = 0, mem = h,
                                stdout = [], warnings = []\<rparr>) (\<lambda>(hl, s).
       set_L0_CPT (s\<lparr>high_level := hl\<rparr>))"

subsection \<open>Training a node\<close>

text \<open>
  \<^verbatim>\<open>for node in G.node_dict\<close> runs over a dictionary: the loop variable takes the keys,
  which are the names of the nodes (strings). \<open>pyobj\<close> is what a loop variable can hold
  here; \<open>swap_in_level\<close> is the body of the loop, with its type test.
\<close>

datatype pyobj = PyStr string | PyNode gnode

definition swap_in_level :: "int \<Rightarrow> pyobj \<Rightarrow> error + pyobj" where
  "swap_in_level level obj =
     (case obj of
        PyNode (DecisionNode n) \<Rightarrow>
          bindE (attr ''LevelCPT'' LevelCPT (DecisionNode n)) (\<lambda>lc.
            case lc (level_key (level - 1)) of
              None \<Rightarrow> Inl (KeyError (''Need to train other players at level '' @ str_int (level - 1)))
            | Some a \<Rightarrow> Inr (PyNode (DecisionNode (n\<lparr>CPT := a\<rparr>))))
      | PyNode (OtherNode p) \<Rightarrow> Inr obj
      | PyStr k \<Rightarrow> Inr obj)"

definition training_msg :: "string \<Rightarrow> int \<Rightarrow> string" where
  "training_msg nodename level = ''Training '' @ nodename @ '' at level '' @ str_int level"

text \<open>Storing the trained table under \<^verbatim>\<open>'Level' + str(level)\<close> in the node of the session's
  own game, and as its CPT when asked; each is an array of its own.\<close>

definition store_level :: "string \<Rightarrow> int \<Rightarrow> real ndarray \<Rightarrow> bool \<Rightarrow> BestResponse \<Rightarrow> error + BestResponse" where
  "store_level nodename level trained setCPT s =
     (let (a, h1) = alloc trained (mem s) in
      bindE (lookup_key (node_dict (G s)) nodename) (\<lambda>node.
      bindE (attr ''LevelCPT'' LevelCPT node) (\<lambda>lc.
        let s1 = s\<lparr>G := upd_node nodename (\<lambda>n. n\<lparr>LevelCPT := Some (lc(level_key level \<mapsto> a))\<rparr>) (G s),
                   mem := h1\<rparr>
        in if setCPT
           then let (b, h2) = alloc trained h1
                in Inr (s1\<lparr>G := upd_node nodename (\<lambda>n. n\<lparr>CPT := b\<rparr>) (G s1), mem := h2\<rparr>)
           else Inr s1)))"

text \<open>\<open>train_node\<close>. The scratch graph \<open>scratch\<close> is the deep copy of the session's game
  (with the arrays as they are in the store); the loop's assignments would go to the
  objects its variable holds.\<close>

definition train_node :: "estimator \<Rightarrow> string \<Rightarrow> int \<Rightarrow> bool \<Rightarrow> BestResponse \<Rightarrow> error + BestResponse" where
  "train_node mceu nodename level setCPT s =
     (let s1 = s\<lparr>stdout := stdout s @ [training_msg nodename level]\<rparr>;
          scratch = G s1
      in
      bindE (mapE (swap_in_level level) (map (\<lambda>(k, v). PyStr k) (node_dict scratch))) (\<lambda>visited.
      bindE (lookup_key (node_dict scratch) nodename) (\<lambda>node.
      bindE (attr ''N'' N node) (\<lambda>vN.
      bindE (attr ''tol'' tol node) (\<lambda>vtol.
      bindE (attr ''delta'' delta node) (\<lambda>vdelta.
        let EUtable = mceu scratch (mem s1) nodename vN vtol vdelta in
        if \<not> logit s1 then store_level nodename level (convert_2_pureCPT EUtable) setCPT s1
        else bindE (attr ''beta'' beta node) (\<lambda>b.
               store_level nodename level (logit_CPT b EUtable) setCPT s1)))))))"

subsection \<open>Solving the game\<close>

text \<open>One sweep: every node of every player of the game is trained at \<open>level\<close>.\<close>

definition train_all :: "estimator \<Rightarrow> int \<Rightarrow> BestResponse \<Rightarrow> error + BestResponse" where
  "train_all mceu level s =
     forE (\<lambda>s1 pl.
             bindE (lookup_key (partition (G s1)) pl) (\<lambda>node_set.
               forE (\<lambda>s2 controlled. train_node mceu controlled level False s2) node_set s1))
       (players (G s)) s"

text \<open>The final pass: the nodes whose \<open>Level\<close> is \<open>high_level\<close>.\<close>

definition train_top_node :: "estimator \<Rightarrow> BestResponse \<Rightarrow> string \<Rightarrow> error + BestResponse" where
  "train_top_node mceu s controlled =
     bindE (lookup_key (node_dict (G s)) controlled) (\<lambda>node.
     bindE (attr ''Level'' Level node) (\<lambda>lv.
       if lv = high_level s then train_node mceu controlled (high_level s) False s
       else Inr s))"

definition train_top :: "estimator \<Rightarrow> BestResponse \<Rightarrow> error + BestResponse" where
  "train_top mceu s =
     forE (\<lambda>s1 pl.
             bindE (lookup_key (partition (G s1)) pl) (\<lambda>node_set.
               forE (train_top_node mceu) node_set s1))
       (players (G s)) s"

text \<open>With \<open>setCPT\<close>, every node gets the policy of its own level as its CPT.\<close>

definition promote_node :: "BestResponse \<Rightarrow> string \<Rightarrow> error + BestResponse" where
  "promote_node s nodename =
     bindE (lookup_key (node_dict (G s)) nodename) (\<lambda>node.
     bindE (attr ''LevelCPT'' LevelCPT node) (\<lambda>lc.
     bindE (attr ''Level'' Level node) (\<lambda>lv.
       case lc (level_key lv) of
         None \<Rightarrow> Inl (KeyError (level_key lv))
       | Some a \<Rightarrow> Inr (s\<lparr>G := upd_node nodename (\<lambda>n. n\<lparr>CPT := a\<rparr>) (G s)\<rparr>))))"

definition promote_all :: "BestResponse \<Rightarrow> error + BestResponse" where
  "promote_all s =
     forE (\<lambda>s1 pl.
             bindE (lookup_key (partition (G s1)) pl) (\<lambda>node_set. forE promote_node node_set s1))
       (players (G s)) s"

text \<open>\<open>solve_game\<close>: the levels of \<^verbatim>\<open>np.arange(1, self.high_level)\<close>, the final pass, the
  promotion.\<close>

definition solve_game :: "estimator \<Rightarrow> bool \<Rightarrow> BestResponse \<Rightarrow> error + BestResponse" where
  "solve_game mceu setCPT s =
     bindE (forE (\<lambda>s1 level. train_all mceu level s1) [1..high_level s - 1] s) (\<lambda>s1.
     bindE (train_top mceu s1) (\<lambda>s2.
       if setCPT then promote_all s2 else Inr s2))"

text \<open>The errors of a failed lookup: a value that is in no space, an index out of
  range.\<close>

definition lookup_error :: "error \<Rightarrow> bool" where
  "lookup_error e = (case e of ValueError m \<Rightarrow> True | IndexError m \<Rightarrow> True | _ \<Rightarrow> False)"

text \<open>
  The invariant of a populated CPT: the trailing-axis slice (the row) of every parent
  configuration sums to 1.
\<close>

definition rows_sum_to_one :: "real ndarray \<Rightarrow> bool" where
  "rows_sum_to_one a = (\<forall>i<nrows (shape a). sum_list (row a i) = 1)"

text \<open>
  A decision node as its constructor builds it and as the generators keep it: its CPT
  is an allocated array of the shape \<open>_createCPT\<close> gives, and its space is not empty (the
  constructor reads \<^verbatim>\<open>space[0]\<close>).
\<close>

definition wf_node :: "dnode \<Rightarrow> heap \<Rightarrow> bool" where
  "wf_node n h =
     (CPT n < fresh h \<and> wf_array (cells h (CPT n)) \<and> shape (cells h (CPT n)) = CPT_shape n \<and>
      space n \<noteq> [])"

text \<open>The position of an element in the row-major data of an array of shape \<open>shp\<close>: each
  index times the product of the sizes of the axes after it.\<close>

fun flat_index :: "nat list \<Rightarrow> nat list \<Rightarrow> nat" where
  "flat_index (d # shp) (i # ind) = i * prod_list shp + flat_index shp ind"
| "flat_index shp ind = 0"

text \<open>The value that stands for a parent in a lookup: the caller's, or else the parent's
  current value.\<close>

definition chosen_value :: "(string \<times> val) list \<Rightarrow> string \<times> pnode \<Rightarrow> val" where
  "chosen_value parentinput = (\<lambda>(par, p). case map_of parentinput par of Some v \<Rightarrow> v | None \<Rightarrow> pvalue p)"

text \<open>What a node of the session holds under \<^verbatim>\<open>'Level' + str(level)\<close> in its \<open>LevelCPT\<close>,
  if anything.\<close>

definition level_entry :: "BestResponse \<Rightarrow> string \<Rightarrow> int \<Rightarrow> addr option" where
  "level_entry s nodename level =
     (case map_of (node_dict (G s)) nodename of
        Some (DecisionNode n) \<Rightarrow> (case LevelCPT n of Some lc \<Rightarrow> lc (level_key level) | None \<Rightarrow> None)
      | _ \<Rightarrow> None)"

text \<open>The target level configured for a node.\<close>

definition node_level :: "BestResponse \<Rightarrow> string \<Rightarrow> int option" where
  "node_level s nodename =
     (case map_of (node_dict (G s)) nodename of Some (DecisionNode n) \<Rightarrow> Level n | _ \<Rightarrow> None)"

text \<open>The live CPT of a node of the session.\<close>

definition node_CPT :: "BestResponse \<Rightarrow> string \<Rightarrow> real ndarray option" where
  "node_CPT s nodename =
     (case map_of (node_dict (G s)) nodename of
        Some (DecisionNode n) \<Rightarrow> Some (cells (mem s) (CPT n))
      | _ \<Rightarrow> None)"

text \<open>A decision node of the game that carries the attributes the constructor
  attaches.\<close>

definition ready :: "BestResponse \<Rightarrow> string \<Rightarrow> bool" where
  "ready s nodename =
     (\<exists>n. map_of (node_dict (G s)) nodename = Some (DecisionNode n) \<and>
          N n \<noteq> None \<and> tol n \<noteq> None \<and> delta n \<noteq> None \<and> Level n \<noteq> None \<and>
          LevelCPT n \<noteq> None \<and> (logit s \<longrightarrow> beta n \<noteq> None))"

text \<open>The nodes in the order \<open>solve_game\<close> visits them: player by player.\<close>

definition controlled_nodes :: "BestResponse \<Rightarrow> string list" where
  "controlled_nodes s =
     concat (map (\<lambda>pl. case map_of (partition (G s)) pl of Some ns \<Rightarrow> ns | None \<Rightarrow> [])
               (players (G s)))"

text \<open>A session whose players all have their nodes configured.\<close>

definition configured :: "BestResponse \<Rightarrow> bool" where
  "configured s =
     (\<forall>pl\<in>set (players (G s)).
        \<exists>ns. map_of (partition (G s)) pl = Some ns \<and> (\<forall>nodename\<in>set ns. ready s nodename))"

text \<open>The calls of \<open>train_node\<close> the spec asks of \<open>solve_game\<close>: for each level below
  \<open>high_level\<close> from 1 up, every node in order; then, at \<open>high_level\<close>, the nodes whose
  target level it is.\<close>

definition expected_calls :: "BestResponse \<Rightarrow> (string \<times> int) list" where
  "expected_calls s =
     concat (map (\<lambda>level. map (\<lambda>nodename. (nodename, level)) (controlled_nodes s))
               [1..high_level s - 1]) @
     map (\<lambda>nodename. (nodename, high_level s))
       (filter (\<lambda>nodename. node_level s nodename = Some (high_level s)) (controlled_nodes s))"

text \<open>Two states of a session with the same players, partition and configuration of
  the nodes.\<close>

definition same_config :: "BestResponse \<Rightarrow> BestResponse \<Rightarrow> bool" where
  "same_config s s1 =
     (players (G s1) = players (G s) \<and> partition (G s1) = partition (G s) \<and>
      logit s1 = logit s \<and> high_level s1 = high_level s \<and>
      (\<forall>nodename. ready s1 nodename = ready s nodename \<and>
                  node_level s1 nodename = node_level s nodename))"

text \<open>\<open>trained calls s s1\<close>: from \<open>s\<close> to \<open>s1\<close> the session has printed the training
  lines of \<open>calls\<close> in order, has an entry for each of them, and has changed no other
  entry.\<close>

definition trained :: "(string \<times> int) list \<Rightarrow> BestResponse \<Rightarrow> BestResponse \<Rightarrow> bool" where
  "trained calls s s1 =
     (same_config s s1 \<and>
      stdout s1 = stdout s @ map (\<lambda>(nodename, level). training_msg nodename level) calls \<and>
      (\<forall>nodename level. (nodename, level) \<notin> set calls \<longrightarrow>
          level_entry s1 nodename level = level_entry s nodename level) \<and>
      (\<forall>nodename level. (nodename, level) \<in> set calls \<longrightarrow> level_entry s1 nodename level \<noteq> None))"

section \<open>Concrete inputs\<close>

text \<open>A node with one parent: the parent's space has three vector values, the node's
  own space two numbers; its CPT is the array at address 0.\<close>

definition ex_parent :: pnode where
  "ex_parent = \<lparr>pspace = [NpVal [0], NpVal [1], NpVal [2]], pvalue = NpVal [1]\<rparr>"

definition ex_node :: dnode where
  "ex_node = \<lparr>name = ''D1'', player = ''1'', space = [PyVal 0, PyVal 1],
     parents = [(''C1'', ex_parent)], value' = PyVal 0, CPT = 0,
     Level = None, delta = None, tol = None, N = None, beta = None, LevelCPT = None\<rparr>"

definition ex_heap :: heap where
  "ex_heap = \<lparr>cells = (\<lambda>a. zeros [])(0 := \<lparr>shape = [3, 2], data = [1/2, 1/2, 1/4, 3/4, 1, 0]\<rparr>),
     fresh = 1\<rparr>"

text \<open>Random draws, and a sliver that names the third value of the parent.\<close>

definition ex_rnd :: "nat \<Rightarrow> int" where
  "ex_rnd i = 25000000"

definition ex_u :: "nat \<Rightarrow> real" where
  "ex_u j = 0"

definition ex_sliver :: "(string \<times> val) list" where
  "ex_sliver = [(''C1'', NpVal [2])]"

text \<open>A game of two players with one decision node each, its arrays, its configuration
  (the prior given for \<open>D2\<close> is the array at address 2, of another shape than the CPT of
  \<open>D2\<close>), an estimator that returns the live CPT it finds at the node, the session after
  the attributes are attached, and the session the constructor returns.\<close>

definition ex_D1 :: dnode where
  "ex_D1 = \<lparr>name = ''D1'', player = ''1'', space = [PyVal 0, PyVal 1], parents = [],
     value' = PyVal 0, CPT = 0,
     Level = None, delta = None, tol = None, N = None, beta = None, LevelCPT = None\<rparr>"

definition ex_D2 :: dnode where
  "ex_D2 = \<lparr>name = ''D2'', player = ''2'', space = [PyVal 0, PyVal 1], parents = [],
     value' = PyVal 0, CPT = 1,
     Level = None, delta = None, tol = None, N = None, beta = None, LevelCPT = None\<rparr>"

definition ex_game :: game where
  "ex_game = \<lparr>node_dict = [(''D1'', DecisionNode ex_D1), (''D2'', DecisionNode ex_D2)],
     players = [''1'', ''2''],
     partition = [(''1'', [''D1'']), (''2'', [''D2''])]\<rparr>"

definition ex_mem :: heap where
  "ex_mem = \<lparr>cells = (\<lambda>a. zeros [])
       (0 := \<lparr>shape = [2], data = [1/4, 3/4]\<rparr>,
        1 := \<lparr>shape = [2], data = [1, 0]\<rparr>,
        2 := \<lparr>shape = [3], data = [1, 0, 0]\<rparr>),
     fresh = 3\<rparr>"

definition ex_spec1 :: playerspec where
  "ex_spec1 = \<lparr>spec_Level = 1, spec_delta = 1/2,
     spec_nodes = [(''D1'', \<lparr>spec_tol = 1, spec_N = 10, spec_L0Dist = L0Uniform, spec_beta = None\<rparr>)]\<rparr>"

definition ex_spec2 :: playerspec where
  "ex_spec2 = \<lparr>spec_Level = 2, spec_delta = 1/2,
     spec_nodes = [(''D2'', \<lparr>spec_tol = 1, spec_N = 10, spec_L0Dist = L0Array 2, spec_beta = None\<rparr>)]\<rparr>"

definition ex_specs :: "(string \<times> playerspec) list" where
  "ex_specs = [(''1'', ex_spec1), (''2'', ex_spec2)]"

definition ex_mceu :: estimator where
  "ex_mceu g h nodename vN vtol vdelta =
     (case map_of (node_dict g) nodename of
        Some (DecisionNode n) \<Rightarrow> cells h (CPT n)
      | _ \<Rightarrow> zeros [])"

definition ex_attributed :: BestResponse where
  "ex_attributed =
     \<lparr>G = \<lparr>node_dict =
              [(''D1'', DecisionNode (ex_D1\<lparr>Level := Some 1, delta := Some (1/2), tol := Some 1,
                                          N := Some 10, LevelCPT := Some Map.empty\<rparr>)),
               (''D2'', DecisionNode (ex_D2\<lparr>Level := Some 2, delta := Some (1/2), tol := Some 1,
                                          N := Some 10, LevelCPT := Some Map.empty\<rparr>))],
            players = [''1'', ''2''],
            partition = [(''1'', [''D1'']), (''2'', [''D2''])]\<rparr>,
      logit = False, specs = ex_specs, high_level = 2, mem = ex_mem,
      stdout = [], warnings = []\<rparr>"

definition ex_session :: BestResponse where
  "ex_session =
     \<lparr>G = \<lparr>node_dict =
              [(''D1'', DecisionNode (ex_D1\<lparr>Level := Some 1, delta := Some (1/2), tol := Some 1,
                                          N := Some 10, LevelCPT := Some [''Level0'' \<mapsto> 3]\<rparr>)),
               (''D2'', DecisionNode (ex_D2\<lparr>Level := Some 2, delta := Some (1/2), tol := Some 1,
                                          N := Some 10, LevelCPT := Some [''Level0'' \<mapsto> 2]\<rparr>))],
            players = [''1'', ''2''],
            partition = [(''1'', [''D1'']), (''2'', [''D2''])]\<rparr>,
      logit = False, specs = ex_specs, high_level = 2,
      mem = \<lparr>cells = (cells ex_mem)(3 := \<lparr>shape = [2], data = [1/2, 1/2]\<rparr>), fresh = 4\<rparr>,
      stdout = [], warnings = []\<rparr>"

section \<open>Properties\<close>

subsection \<open>Results\<close>

lemma bindE_simps [simp]:
  "bindE (Inr x) f = f x"
  "bindE (Inl e) g = Inl e"
  unfolding bindE_def by simp_all

lemma bindE_eq_Inr: "bindE m f = Inr y \<longleftrightarrow> (\<exists>x. m = Inr x \<and> f x = Inr y)"
  by (cases m) simp_all

lemma bindE_eq_Inl: "bindE m f = Inl e \<longleftrightarrow> m = Inl e \<or> (\<exists>x. m = Inr x \<and> f x = Inl e)"
  by (cases m) simp_all

subsection \<open>Pure perturbation\<close>

lemma xrange_true_div:
  "bindE (true_div a b) (\<lambda>steps. bindE (xrange steps) f) =
     (if b = 0 then Inl (ZeroDivisionError ''division by zero'')
      else Inl (TypeError ''integer argument expected, got float''))"
  by (simp add: true_div_def)

lemma perturb_pure_unbound:
  assumes "perturb_pure noise sliver rnd u (n, h) = Inr (zbound, n1, h1)"
  shows "zbound = None"
proof (cases "sliver = []")
  case False
  with assms show ?thesis by (simp add: perturb_pure_def)
next
  case True
  show ?thesis
  proof (cases "randomCPT False False rnd (n, h)")
    case (Inl e)
    with assms True show ?thesis
      by (simp add: perturb_pure_def Let_def split: if_splits)
  next
    case (Inr res)
    obtain altCPT n2 h2 where "res = (altCPT, n2, h2)" by (cases res) auto
    with Inr assms True show ?thesis
      by (cases altCPT) (simp_all add: perturb_pure_def Let_def xrange_true_div split: if_splits)
  qed
qed

text \<open>
  Claim C7. For every decision node and every noise, \<open>perturbCPT\<close> with \<open>mixed = False\<close>
  raises: it never completes, so it is no silent no-op and leaves no partially shifted
  rows behind. With a sliver, \<open>z\<close> is read before it was ever assigned
  (UnboundLocalError); without one, the number of steps is the float of a true division
  and \<^verbatim>\<open>xrange\<close> rejects it (TypeError), unless an earlier statement has raised already.
\<close>

theorem perturbCPT_pure_raises:
  "\<exists>e. perturbCPT noise False sliver setCPT rnd u (n, h) = Inl e"
proof (cases "perturb_pure noise sliver rnd u (n, h)")
  case (Inl e)
  then show ?thesis by (simp add: perturbCPT_def)
next
  case (Inr res)
  obtain zbound n1 h1 where res: "res = (zbound, n1, h1)" by (cases res) auto
  with Inr have "zbound = None" by (simp add: perturb_pure_unbound)
  with Inr res show ?thesis by (simp add: perturbCPT_def)
qed

subsection \<open>The all-zero CPT\<close>

lemma mapE_Inl: "mapE f xs = Inl e \<Longrightarrow> \<exists>x\<in>set xs. f x = Inl e"
  by (induction xs) (auto simp: bindE_eq_Inl)

lemma position_error: "position spc v = Inl e \<Longrightarrow> lookup_error e"
  by (auto simp: position_def lookup_error_def split: option.splits)

lemma get_CPTindex_error: "get_CPTindex n vs b = Inl e \<Longrightarrow> lookup_error e"
  unfolding get_CPTindex_def by (auto dest!: mapE_Inl position_error)

lemma getitem_error: "getitem a ind = Inl e \<Longrightarrow> lookup_error e"
  by (auto simp: getitem_def lookup_error_def split: option.splits)

lemma first_ge_error: "first_ge cdf c = Inl e \<Longrightarrow> lookup_error e"
  by (auto simp: first_ge_def lookup_error_def split: option.splits)

lemma argmax_error: "argmax xs = Inl e \<Longrightarrow> lookup_error e"
  by (auto simp: argmax_def lookup_error_def split: option.splits if_splits)

lemma space_at_error: "space_at spc i = Inl e \<Longrightarrow> lookup_error e"
  by (auto simp: space_at_def lookup_error_def split: if_splits)

lemma draw_value_error:
  assumes "any_nonzero (cells h (CPT n))"
    and "draw_value parentinput setvalue mode cutoff (n, h) = Inl e"
  shows "lookup_error e"
  using assms unfolding draw_value_def
  by (auto simp: bindE_eq_Inl Let_def split: if_splits
      dest: get_CPTindex_error getitem_error first_ge_error argmax_error space_at_error)

lemma prob_error:
  assumes "any_nonzero (cells h (CPT n))" and "prob parentinput valueinput (n, h) = Inl e"
  shows "lookup_error e"
  using assms unfolding prob_def
  by (auto simp: bindE_eq_Inl Let_def split: if_splits dest: get_CPTindex_error getitem_error)

lemma logprob_Inl:
  "logprob parentinput valueinput nh = Inl e \<longleftrightarrow> prob parentinput valueinput nh = Inl e"
  by (auto simp: logprob_def bindE_eq_Inl)

lemma draw_value_zeros:
  "(draw_value parentinput setvalue mode cutoff (n, h)
      = Inl (AttributeError (''CPT for '' @ name n @ '' is just a zeros array'')))
     = (\<not> any_nonzero (cells h (CPT n)))"
proof (cases "any_nonzero (cells h (CPT n))")
  case True
  then show ?thesis using draw_value_error [OF True] by (fastforce simp: lookup_error_def)
next
  case False
  then show ?thesis by (simp add: draw_value_def zeros_msg_def)
qed

lemma prob_zeros:
  "(prob parentinput valueinput (n, h)
      = Inl (RuntimeError (''CPT for '' @ name n @ '' is just a zeros array'')))
     = (\<not> any_nonzero (cells h (CPT n)))"
proof (cases "any_nonzero (cells h (CPT n))")
  case True
  then show ?thesis using prob_error [OF True] by (fastforce simp: lookup_error_def)
next
  case False
  then show ?thesis by (simp add: prob_def zeros_msg_def)
qed

text \<open>
  Claim C6. Each of \<open>draw_value\<close>, \<open>prob\<close> and \<open>logprob\<close> raises the error that names the
  node (\<^verbatim>\<open>CPT for <name> is just a zeros array\<close>; an AttributeError from \<open>draw_value\<close>, a
  RuntimeError from the other two) exactly when the node's CPT has no non-zero element.
\<close>

theorem zeros_CPT_rejected:
  "((draw_value parentinput setvalue mode cutoff (n, h)
       = Inl (AttributeError (''CPT for '' @ name n @ '' is just a zeros array'')))
      = (\<not> any_nonzero (cells h (CPT n)))) \<and>
   ((prob parentinput valueinput (n, h)
       = Inl (RuntimeError (''CPT for '' @ name n @ '' is just a zeros array'')))
      = (\<not> any_nonzero (cells h (CPT n)))) \<and>
   ((logprob parentinput valueinput (n, h)
       = Inl (RuntimeError (''CPT for '' @ name n @ '' is just a zeros array'')))
      = (\<not> any_nonzero (cells h (CPT n))))"
  by (simp only: draw_value_zeros prob_zeros logprob_Inl simp_thms)

subsection \<open>Indexing\<close>

lemma index_block_bounds:
  "index_block shp ind acc = Some (off, rest) \<Longrightarrow>
     length ind \<le> length shp \<and> rest = drop (length ind) shp \<and>
     acc * prod_list (take (length ind) shp) \<le> off \<and>
     off < (acc + 1) * prod_list (take (length ind) shp)"
proof (induction shp ind acc rule: index_block.induct)
  case (1 shp off)
  then show ?case by simp
next
  case (2 i ind off)
  then show ?case by simp
next
  case (3 d shp i ind acc)
  let ?P = "prod_list (take (length ind) shp)"
  from "3.prems" have i: "i < d" and rec: "index_block shp ind (acc * d + i) = Some (off, rest)"
    by (auto split: if_splits)
  from "3.IH" [OF i rec] have len: "length ind \<le> length shp" and r: "rest = drop (length ind) shp"
    and lo: "(acc * d + i) * ?P \<le> off" and hi: "off < (acc * d + i + 1) * ?P"
    by auto
  have "acc * (d * ?P) \<le> (acc * d + i) * ?P"
    by (simp add: add_mult_distrib)
  then have lo1: "acc * (d * ?P) \<le> off" using lo by (rule order_trans)
  have "acc * d + i + 1 \<le> (acc + 1) * d" using i by simp
  then have "(acc * d + i + 1) * ?P \<le> ((acc + 1) * d) * ?P" by (rule mult_le_mono1)
  also have "((acc + 1) * d) * ?P = (acc + 1) * (d * ?P)" by (rule mult.assoc)
  finally have "(acc * d + i + 1) * ?P \<le> (acc + 1) * (d * ?P)" .
  with hi have "off < (acc + 1) * (d * ?P)" by (rule less_le_trans)
  with lo1 len r show ?case by simp
qed

lemma prod_list_butlast: "shp \<noteq> [] \<Longrightarrow> prod_list shp = nrows shp * last shp"
proof -
  assume "shp \<noteq> []"
  then have "shp = butlast shp @ [last shp]" by simp
  then have "prod_list shp = prod_list (butlast shp @ [last shp])" by simp
  then show ?thesis by (simp add: nrows_def)
qed

lemma index_block_row:
  assumes "index_block shp ind 0 = Some (off, rest)" and "length ind + 1 = length shp"
  shows "rest = [last shp] \<and> off < nrows shp"
proof -
  from assms(2) have ne: "shp \<noteq> []" by auto
  from index_block_bounds [OF assms(1)]
  have r: "rest = drop (length ind) shp" and hi: "off < prod_list (take (length ind) shp)" by auto
  from assms(2) have li: "length ind = length shp - 1" by simp
  then have t: "take (length ind) shp = butlast shp" by (simp add: butlast_conv_take)
  have "drop (length shp - 1) shp = [last shp]" using ne
    by (metis append_butlast_last_id append_eq_conv_conj length_butlast)
  then have "drop (length ind) shp = [last shp]" by (simp only: li)
  with r hi t show ?thesis by (simp add: nrows_def)
qed

lemma getitem_row:
  assumes "getitem a ind = Inr slice" and "length ind + 1 = length (shape a)"
  shows "\<exists>i<nrows (shape a). data slice = row a i \<and> shape slice = [last (shape a)]"
proof -
  from assms(1) obtain off rest where ib: "index_block (shape a) ind 0 = Some (off, rest)"
    and sl: "slice = \<lparr>shape = rest, data = take (prod_list rest) (drop (off * prod_list rest) (data a))\<rparr>"
    by (auto simp: getitem_def split: option.splits)
  from index_block_row [OF ib assms(2)] have r: "rest = [last (shape a)]" and off: "off < nrows (shape a)"
    by auto
  from assms(2) have "shape a \<noteq> []" by auto
  then have "last_dim (shape a) = last (shape a)" by (simp add: last_dim_def)
  with sl r off show ?thesis by (auto simp: row_def)
qed

lemma rows_sum_to_one_getitem:
  "rows_sum_to_one a \<Longrightarrow> getitem a ind = Inr slice \<Longrightarrow> length ind + 1 = length (shape a)
     \<Longrightarrow> sum_list (data slice) = 1"
  by (auto simp: rows_sum_to_one_def dest!: getitem_row)

text \<open>The rows of a concatenation of rows of one length.\<close>

lemma concat_row:
  assumes "\<forall>r\<in>set rs. length r = k" and "i < length rs"
  shows "take k (drop (i * k) (concat rs)) = rs ! i"
  using assms
proof (induction rs arbitrary: i)
  case Nil
  then show ?case by simp
next
  case (Cons r rs)
  show ?case
  proof (cases i)
    case 0
    with Cons.prems show ?thesis by simp
  next
    case (Suc j)
    with Cons.prems have "take k (drop (j * k) (concat rs)) = rs ! j"
      by (intro Cons.IH) auto
    moreover from Cons.prems have "length r = k" by simp
    ultimately show ?thesis using Suc by simp
  qed
qed

lemma length_concat_rows:
  "\<forall>r\<in>set rs. length r = k \<Longrightarrow> length (concat rs) = length rs * k"
  by (induction rs) auto

lemma length_diff: "length (diff xs) = length xs - 1"
  by (induction xs rule: diff.induct) auto

lemma sum_list_diff: "xs \<noteq> [] \<Longrightarrow> sum_list (diff xs) = last xs - hd xs"
  by (induction xs rule: diff.induct) auto

lemma sorted_hd_least: "sorted xs \<Longrightarrow> y \<in> set xs \<Longrightarrow> hd xs \<le> y"
  by (cases xs) auto

lemma sorted_last_greatest: "sorted xs \<Longrightarrow> y \<in> set xs \<Longrightarrow> y \<le> last xs"
  by (induction xs) (auto split: if_splits)

lemma sum_list_scaled: "sum_list (map (\<lambda>d. d / c) ds) = sum_list ds / (c::real)"
  by (induction ds) (auto simp: add_divide_distrib)

lemma length_stick_row: "length (stick_row x) = length x + 1"
  by (simp add: stick_row_def length_diff del: sort_key_simps)

lemma sum_stick_row:
  assumes "\<forall>v\<in>set x. 1 \<le> v \<and> real_of_int v < M"
  shows "sum_list (stick_row x) = 1"
proof -
  define y where "y = 0 # map real_of_int x @ [M]"
  define yy where "yy = sort y"
  have Mpos: "0 < M" by (simp add: M_def)
  have srt: "sorted yy" unfolding yy_def by (rule sorted_sort)
  have mem: "set yy = set y" unfolding yy_def by (rule set_sort)
  have "length yy = length y" unfolding yy_def by (rule length_sort)
  then have ne: "yy \<noteq> []" by (auto simp: y_def)
  have rng: "\<forall>v\<in>set yy. 0 \<le> v \<and> v \<le> M"
    using assms Mpos by (auto simp: mem y_def)
  have "hd yy \<in> set yy" "last yy \<in> set yy" using ne by simp_all
  with rng have "0 \<le> hd yy" "last yy \<le> M" by blast+
  moreover have "hd yy \<le> 0" by (rule sorted_hd_least [OF srt]) (simp add: mem y_def)
  moreover have "M \<le> last yy" by (rule sorted_last_greatest [OF srt]) (simp add: mem y_def)
  ultimately have "hd yy = 0" "last yy = M" by simp_all
  with sum_list_diff [OF ne] have "sum_list (diff yy) = M" by simp
  with Mpos show ?thesis
    unfolding stick_row_def y_def [symmetric] yy_def [symmetric] by (simp add: sum_list_scaled)
qed

lemma CPT_shape_nonempty [simp]: "CPT_shape n \<noteq> []"
  by (simp add: CPT_shape_def)

lemma last_CPT_shape [simp]: "last (CPT_shape n) = length (space n)"
  by (simp add: CPT_shape_def)

lemma length_CPT_shape [simp]: "length (CPT_shape n) = length (parents n) + 1"
  by (simp add: CPT_shape_def)

text \<open>The constructor's \<open>_createCPT\<close> establishes \<open>wf_node\<close>.\<close>

lemma createCPT_wf:
  assumes "space n \<noteq> []" and "createCPT (n, h) = (n1, h1)"
  shows "wf_node n1 h1"
  using assms
  by (auto simp: createCPT_def alloc_def wf_node_def wf_array_def zeros_def CPT_shape_def Let_def
      split: prod.splits)

lemma last_dim_nonempty: "shp \<noteq> [] \<Longrightarrow> last_dim shp = last shp"
  by (simp add: last_dim_def)

lemma length_row:
  assumes "wf_array a" and "shape a \<noteq> []" and "i < nrows (shape a)"
  shows "length (row a i) = last (shape a)"
proof -
  let ?k = "last (shape a)"
  have len: "length (data a) = nrows (shape a) * ?k"
    using assms(1,2) by (simp add: wf_array_def prod_list_butlast)
  have "Suc i * ?k \<le> nrows (shape a) * ?k" using assms(3) by (intro mult_le_mono1) simp
  then have "?k \<le> length (data a) - i * ?k" using len by simp
  then show ?thesis using assms(2) by (simp add: row_def last_dim_nonempty)
qed

text \<open>An array given by its rows.\<close>

lemma row_of_rows:
  assumes "shp \<noteq> []" and "\<forall>r\<in>set rs. length r = last shp" and "i < length rs"
  shows "row \<lparr>shape = shp, data = concat rs\<rparr> i = rs ! i"
  using assms by (simp add: row_def last_dim_nonempty concat_row)

lemma rows_sum_to_one_of_rows:
  assumes "shp \<noteq> []" and "length rs = nrows shp" and "\<forall>r\<in>set rs. length r = last shp \<and> sum_list r = 1"
  shows "rows_sum_to_one \<lparr>shape = shp, data = concat rs\<rparr>"
  unfolding rows_sum_to_one_def
proof (intro allI impI)
  fix i assume "i < nrows (shape \<lparr>shape = shp, data = concat rs\<rparr>)"
  then have i: "i < length rs" using assms(2) by simp
  then have "row \<lparr>shape = shp, data = concat rs\<rparr> i = rs ! i"
    using assms by (intro row_of_rows) auto
  moreover have "rs ! i \<in> set rs" using i by simp
  ultimately show "sum_list (row \<lparr>shape = shp, data = concat rs\<rparr> i) = 1" using assms(3) by auto
qed

lemma wf_array_of_rows:
  assumes "shp \<noteq> []" and "length rs = nrows shp" and "\<forall>r\<in>set rs. length r = last shp"
  shows "wf_array \<lparr>shape = shp, data = concat rs\<rparr>"
proof -
  have "length (concat rs) = length rs * last shp" using assms(3) by (rule length_concat_rows)
  with assms(1,2) show ?thesis by (simp add: wf_array_def prod_list_butlast del: length_concat)
qed

lemma replicate_as_rows: "replicate (m * k) c = concat (replicate m (replicate k c))"
  by (induction m) (simp_all add: replicate_add)

lemma uniform_array_rows:
  assumes "shp \<noteq> []"
  shows "uniform_array shp
    = \<lparr>shape = shp, data = concat (replicate (nrows shp) (replicate (last shp) (1 / real (last shp))))\<rparr>"
proof -
  have "map (\<lambda>x. x + 1 / real (last shp)) (data (zeros shp))
          = replicate (nrows shp * last shp) (1 / real (last shp))"
    using assms by (simp add: zeros_def prod_list_butlast)
  also have "\<dots> = concat (replicate (nrows shp) (replicate (last shp) (1 / real (last shp))))"
    by (rule replicate_as_rows)
  finally show ?thesis by (simp add: uniform_array_def)
qed

lemma uniform_array_sums:
  assumes "shp \<noteq> []" and "last shp \<noteq> 0"
  shows "rows_sum_to_one (uniform_array shp)"
  unfolding uniform_array_rows [OF assms(1)]
  using assms by (intro rows_sum_to_one_of_rows) (auto simp: sum_list_replicate)

lemma uniform_array_wf: "shp \<noteq> [] \<Longrightarrow> wf_array (uniform_array shp)"
  by (simp add: uniform_array_def zeros_def wf_array_def)

lemma mixed_random_sums:
  assumes "shp \<noteq> []" and "mixed_random shp rnd = Inr z"
    and "\<forall>i. 1 \<le> rnd i \<and> real_of_int (rnd i) < M"
  shows "rows_sum_to_one z \<and> wf_array z \<and> shape z = shp"
proof -
  let ?k = "last shp"
  let ?rs = "map (\<lambda>i. stick_row (map (\<lambda>j. rnd (i * (?k - 1) + j)) [0..<?k - 1])) [0..<nrows shp]"
  from assms(2) have k: "?k \<noteq> 0" and z: "z = \<lparr>shape = shp, data = concat ?rs\<rparr>"
    by (auto simp: mixed_random_def Let_def split: if_splits)
  have len: "\<forall>r\<in>set ?rs. length r = ?k" using k by (auto simp: length_stick_row)
  have sums: "\<forall>r\<in>set ?rs. sum_list r = 1" using assms(3) by (auto intro!: sum_stick_row)
  have "rows_sum_to_one \<lparr>shape = shp, data = concat ?rs\<rparr>"
    using assms(1) len sums by (intro rows_sum_to_one_of_rows) auto
  moreover have "wf_array \<lparr>shape = shp, data = concat ?rs\<rparr>"
    using assms(1) len by (intro wf_array_of_rows) auto
  ultimately show ?thesis using z by simp
qed

lemma mixed_random_succeeds:
  "last shp \<noteq> 0 \<Longrightarrow> \<exists>z. mixed_random shp rnd = Inr z"
  by (simp add: mixed_random_def Let_def)

lemma take_drop_blend:
  "take k (drop j (blend noise c r)) = blend noise (take k (drop j c)) (take k (drop j r))"
  by (simp add: blend_def take_map drop_map take_zip drop_zip)

lemma sum_list_blend:
  "length xs = length ys \<Longrightarrow>
     sum_list (blend noise xs ys) = sum_list xs * (1 - noise) + sum_list ys * noise"
  unfolding blend_def by (induction xs ys rule: list_induct2) (simp_all add: algebra_simps)

lemma blend_zero: "length c \<le> length r \<Longrightarrow> blend 0 c r = c"
proof (induction c arbitrary: r)
  case Nil
  then show ?case by (simp add: blend_def)
next
  case (Cons x c)
  then obtain y r1 where "r = y # r1" by (cases r) auto
  with Cons show ?case by (simp add: blend_def)
qed

lemma length_blend: "length (blend noise c r) = min (length c) (length r)"
  by (simp add: blend_def)

lemma blend_rows_sum_to_one:
  assumes "wf_array c" and "shape c \<noteq> []" and "rows_sum_to_one c"
    and "wf_array r" and "shape r = shape c" and "rows_sum_to_one r"
  shows "rows_sum_to_one \<lparr>shape = shape c, data = blend noise (data c) (data r)\<rparr>"
  unfolding rows_sum_to_one_def
proof (intro allI impI)
  fix i assume "i < nrows (shape \<lparr>shape = shape c, data = blend noise (data c) (data r)\<rparr>)"
  then have i: "i < nrows (shape c)" by simp
  have "row \<lparr>shape = shape c, data = blend noise (data c) (data r)\<rparr> i = blend noise (row c i) (row r i)"
    by (simp add: row_def take_drop_blend assms(5))
  moreover have "length (row c i) = length (row r i)"
    using assms i by (simp add: length_row)
  moreover have "sum_list (row c i) = 1" "sum_list (row r i) = 1"
    using assms(3,5,6) i by (auto simp: rows_sum_to_one_def)
  ultimately show "sum_list (row \<lparr>shape = shape c, data = blend noise (data c) (data r)\<rparr> i) = 1"
    by (simp add: sum_list_blend)
qed

lemma row_update:
  assumes "wf_array a" and "shape a \<noteq> []" and "off < nrows (shape a)" and "i < nrows (shape a)"
    and "length new = last (shape a)"
  shows "row (a\<lparr>data := take (off * last (shape a)) (data a) @ new @
                        drop (off * last (shape a) + last (shape a)) (data a)\<rparr>) i
         = (if i = off then new else row a i)"
proof -
  let ?k = "last (shape a)"
  let ?d = "data a"
  have len: "length ?d = nrows (shape a) * ?k"
    using assms(1,2) by (simp add: wf_array_def prod_list_butlast)
  have offk: "Suc off * ?k \<le> length ?d" unfolding len using assms(3) by (intro mult_le_mono1) simp
  then have offk': "off * ?k \<le> length ?d" by simp
  have ld: "last_dim (shape a) = ?k" using assms(2) by (simp add: last_dim_nonempty)
  consider "i = off" | "i < off" | "off < i" by linarith
  then show ?thesis
  proof cases
    case 1
    then show ?thesis using offk' assms(5) by (simp add: row_def ld min_def)
  next
    case 2
    then have "Suc i * ?k \<le> off * ?k" by (intro mult_le_mono1) simp
    then have le: "i * ?k + ?k \<le> off * ?k" by simp
    have "take ?k (drop (i * ?k) (take (off * ?k) ?d @ new @ drop (off * ?k + ?k) ?d))
            = take ?k (drop (i * ?k) (take (off * ?k) ?d))"
      using le offk' by (simp add: min_def)
    also have "\<dots> = take ?k (drop (i * ?k) ?d)"
      using le by (simp add: drop_take min_def)
    finally show ?thesis using 2 by (simp add: row_def ld)
  next
    case 3
    then have "Suc off * ?k \<le> i * ?k" by (intro mult_le_mono1) simp
    then have le: "off * ?k + ?k \<le> i * ?k" by simp
    have "drop (i * ?k) (take (off * ?k) ?d @ new @ drop (off * ?k + ?k) ?d)
            = drop (i * ?k - (off * ?k + ?k)) (drop (off * ?k + ?k) ?d)"
      using le offk' assms(5) 3 by (simp add: min_def)
    also have "\<dots> = drop (i * ?k) ?d" using le by simp
    finally show ?thesis using 3 by (simp add: row_def ld)
  qed
qed

lemma wf_array_update:
  assumes "wf_array a" and "shape a \<noteq> []" and "off < nrows (shape a)" and "length new = last (shape a)"
  shows "wf_array (a\<lparr>data := take (off * last (shape a)) (data a) @ new @
                        drop (off * last (shape a) + last (shape a)) (data a)\<rparr>)"
proof -
  let ?k = "last (shape a)"
  have len: "length (data a) = nrows (shape a) * ?k"
    using assms(1,2) by (simp add: wf_array_def prod_list_butlast)
  have "Suc off * ?k \<le> length (data a)" unfolding len using assms(3) by (intro mult_le_mono1) simp
  then have "off * ?k + ?k \<le> length (data a)" by simp
  then have "length (take (off * ?k) (data a) @ new @ drop (off * ?k + ?k) (data a)) = length (data a)"
    using assms(4) by simp
  then show ?thesis using assms(1) by (simp add: wf_array_def)
qed

lemma first_where_Some:
  "first_where P xs = Some i \<Longrightarrow> i < length xs \<and> P (xs ! i) \<and> (\<forall>j<i. \<not> P (xs ! j))"
proof (induction xs arbitrary: i)
  case Nil
  then show ?case by simp
next
  case (Cons x xs)
  show ?case
  proof (cases "P x")
    case True
    with Cons.prems show ?thesis by simp
  next
    case False
    with Cons.prems obtain k where k: "first_where P xs = Some k" and i: "i = Suc k" by auto
    from Cons.IH [OF k] have "k < length xs" "P (xs ! k)" "\<forall>j<k. \<not> P (xs ! j)" by auto
    with False i show ?thesis by (auto simp: nth_Cons split: nat.splits)
  qed
qed

lemma first_where_None: "first_where P xs = None \<longleftrightarrow> (\<forall>x\<in>set xs. \<not> P x)"
  by (induction xs) auto

lemma mapE_Inr:
  "mapE f xs = Inr ys \<Longrightarrow> length ys = length xs \<and> (\<forall>i<length xs. f (xs ! i) = Inr (ys ! i))"
proof (induction xs arbitrary: ys)
  case Nil
  then show ?case by simp
next
  case (Cons x xs)
  from Cons.prems obtain y ys1 where y: "f x = Inr y" and ys1: "mapE f xs = Inr ys1" and ys: "ys = y # ys1"
    by (auto simp: bindE_eq_Inr)
  from Cons.IH [OF ys1] y ys show ?case by (auto simp: nth_Cons split: nat.splits)
qed

lemma truth_index_less:
  assumes "truth_index spc v = Inr i"
  shows "i < length spc"
proof -
  from assms obtain truth where t: "mapE (\<lambda>x. eq_all x v) spc = Inr truth"
    and i: "first_where (\<lambda>x. x = True) truth = Some i"
    by (auto simp: truth_index_def index_of_def bindE_eq_Inr split: option.splits)
  from mapE_Inr [OF t] first_where_Some [OF i] show ?thesis by simp
qed

lemma sliver_index_bounds:
  assumes "sliver_index n sliver = Inr indo"
  shows "length indo = length (parents n) \<and>
         (\<forall>j<length indo. indo ! j < length (pspace (snd (parents n ! j))))"
proof -
  from mapE_Inr [OF assms [unfolded sliver_index_def]]
  have len: "length indo = length (parents n)"
    and each: "\<forall>j<length (parents n).
      (case parents n ! j of (par, p) \<Rightarrow> case map_of sliver par of
          Some v \<Rightarrow> truth_index (pspace p) v | None \<Rightarrow> truth_index (pspace p) (pvalue p)) = Inr (indo ! j)"
    by auto
  have "indo ! j < length (pspace (snd (parents n ! j)))" if "j < length (parents n)" for j
    using each [rule_format, OF that]
    by (cases "parents n ! j") (auto split: option.splits dest: truth_index_less)
  with len show ?thesis by simp
qed

lemma index_block_exists:
  "length ind = length pre \<Longrightarrow> (\<forall>j<length ind. ind ! j < pre ! j) \<Longrightarrow>
     \<exists>off. index_block (pre @ rest) ind acc = Some (off, rest)"
proof (induction ind arbitrary: pre acc)
  case Nil
  then show ?case by simp
next
  case (Cons i ind)
  then obtain d pre1 where pre: "pre = d # pre1" by (cases pre) auto
  from Cons.prems pre have "i < d" by auto
  moreover from Cons.prems pre have "length ind = length pre1" "\<forall>j<length ind. ind ! j < pre1 ! j"
    by auto
  ultimately show ?case using Cons.IH [of pre1 "acc * d + i"] pre by simp
qed

lemma parent_index_row:
  assumes "length indo = length (parents n)"
    and "\<forall>j<length indo. indo ! j < length (pspace (snd (parents n ! j)))"
  shows "\<exists>off<nrows (CPT_shape n). index_block (CPT_shape n) indo 0 = Some (off, [length (space n)])"
proof -
  let ?pre = "map (\<lambda>(par, p). length (pspace p)) (parents n)"
  have "\<forall>j<length indo. indo ! j < ?pre ! j"
    using assms by (auto simp: case_prod_unfold)
  with assms(1) obtain off where off: "index_block (?pre @ [length (space n)]) indo 0 = Some (off, [length (space n)])"
    using index_block_exists [of indo ?pre "[length (space n)]" 0] by auto
  then have ib: "index_block (CPT_shape n) indo 0 = Some (off, [length (space n)])"
    by (simp add: CPT_shape_def)
  from index_block_row [OF ib] assms(1) have "off < nrows (CPT_shape n)" by simp
  with ib show ?thesis by blast
qed

lemma getitem_full_row:
  assumes "index_block (shape a) ind 0 = Some (off, [k])" and "shape a \<noteq> []" and "last (shape a) = k"
  shows "getitem a ind = Inr \<lparr>shape = [k], data = row a off\<rparr>"
  using assms by (simp add: getitem_def row_def last_dim_nonempty)

lemma setitem_full_row:
  assumes "index_block (shape a) ind 0 = Some (off, [k])"
  shows "setitem a ind new = Inr (a\<lparr>data := take (off * k) (data a) @ new @ drop (off * k + k) (data a)\<rparr>)"
  using assms by (simp add: setitem_def)

lemma mixed_random_wf:
  assumes "shp \<noteq> []" and "mixed_random shp rnd = Inr z"
  shows "wf_array z \<and> shape z = shp"
proof -
  let ?k = "last shp"
  let ?rs = "map (\<lambda>i. stick_row (map (\<lambda>j. rnd (i * (?k - 1) + j)) [0..<?k - 1])) [0..<nrows shp]"
  from assms(2) have k: "?k \<noteq> 0" and z: "z = \<lparr>shape = shp, data = concat ?rs\<rparr>"
    by (auto simp: mixed_random_def Let_def split: if_splits)
  have len: "\<forall>r\<in>set ?rs. length r = ?k" using k by (auto simp: length_stick_row)
  have "wf_array \<lparr>shape = shp, data = concat ?rs\<rparr>"
    using assms(1) len by (intro wf_array_of_rows) auto
  then show ?thesis using z by simp
qed

lemma randomCPT_mixed_unfold:
  "randomCPT True setCPT rnd (n, h) =
     (if shape (cells h (CPT n)) = [] then Inl (IndexError ''tuple index out of range'')
      else case mixed_random (shape (cells h (CPT n))) rnd of
             Inl e \<Rightarrow> Inl e
           | Inr z \<Rightarrow>
               Inr (if setCPT then None else Some (fresh h),
                    if setCPT then n\<lparr>CPT := fresh h\<rparr> else n,
                    h\<lparr>cells := (cells h)(fresh h := z), fresh := Suc (fresh h)\<rparr>))"
  by (simp add: randomCPT_def alloc_def Let_def split: sum.splits)

lemma perturb_mixed_whole:
  assumes "CPT n < fresh h"
    and "perturb_mixed noise [] rnd (n, h) = Inr (zb, n1, h1)"
  shows "\<exists>rand. mixed_random (shape (cells h (CPT n))) rnd = Inr rand \<and> shape (cells h (CPT n)) \<noteq> [] \<and>
           zb = Some (Suc (fresh h)) \<and> n1 = n \<and> fresh h1 = Suc (Suc (fresh h)) \<and>
           cells h1 (CPT n) = cells h (CPT n) \<and>
           cells h1 (Suc (fresh h)) =
             \<lparr>shape = shape (cells h (CPT n)),
              data = blend noise (data (cells h (CPT n))) (data rand)\<rparr>"
  using assms
  by (auto simp: perturb_mixed_def randomCPT_mixed_unfold alloc_def Let_def
      split: if_splits sum.splits)

lemma perturb_mixed_sliver:
  assumes "CPT n < fresh h" and "sliver \<noteq> []"
    and "perturb_mixed noise sliver rnd (n, h) = Inr (zb, n1, h1)"
  shows "\<exists>rand indo cb rb c1.
           mixed_random (shape (cells h (CPT n))) rnd = Inr rand \<and> shape (cells h (CPT n)) \<noteq> [] \<and>
           sliver_index n sliver = Inr indo \<and>
           getitem (cells h (CPT n)) indo = Inr cb \<and> getitem rand indo = Inr rb \<and>
           setitem (cells h (CPT n)) indo (blend noise (data cb) (data rb)) = Inr c1 \<and>
           zb = Some (CPT n) \<and> n1 = n \<and> fresh h1 = Suc (fresh h) \<and>
           cells h1 (CPT n) = c1"
  using assms
  by (auto simp: perturb_mixed_def randomCPT_mixed_unfold alloc_def Let_def bindE_eq_Inr
      split: if_splits sum.splits)

lemma perturbCPT_mixed_Inr:
  assumes "perturbCPT noise True sliver setCPT rnd u (n, h) = Inr (ret, n1, h1)"
  shows "\<exists>z n0. perturb_mixed noise sliver rnd (n, h) = Inr (Some z, n0, h1) \<and>
           ret = (if setCPT then None else Some z) \<and> n1 = (if setCPT then n0\<lparr>CPT := z\<rparr> else n0)"
  using assms
  by (auto simp: perturbCPT_def bindE_eq_Inr split: option.splits if_splits)

lemma setitem_same_block:
  assumes "getitem a ind = Inr b"
  shows "setitem a ind (data b) = Inr a"
proof -
  from assms obtain off rest where ib: "index_block (shape a) ind 0 = Some (off, rest)"
    and b: "data b = take (prod_list rest) (drop (off * prod_list rest) (data a))"
    by (auto simp: getitem_def split: option.splits)
  have "take (off * prod_list rest) (data a) @ take (prod_list rest) (drop (off * prod_list rest) (data a))
          @ drop (off * prod_list rest + prod_list rest) (data a) = data a"
    by (metis append_take_drop_id drop_drop add.commute)
  with ib b show ?thesis by (simp add: setitem_def)
qed

lemma getitem_same_length:
  assumes "getitem a ind = Inr b" and "getitem r ind = Inr rb"
    and "shape r = shape a" and "length (data r) = length (data a)"
  shows "length (data rb) = length (data b)"
  using assms by (auto simp: getitem_def split: option.splits)

lemma perturb_mixed_noise_zero:
  assumes "CPT n < fresh h" and "wf_array (cells h (CPT n))"
    and "perturb_mixed 0 sliver rnd (n, h) = Inr (Some z, n0, h1)"
  shows "n0 = n \<and> cells h1 (CPT n) = cells h (CPT n) \<and> cells h1 z = cells h (CPT n)"
proof (cases "sliver = []")
  case True
  with perturb_mixed_whole [OF assms(1), of 0 rnd "Some z" n0 h1] assms(3)
  obtain rand where r: "mixed_random (shape (cells h (CPT n))) rnd = Inr rand"
    and ne: "shape (cells h (CPT n)) \<noteq> []" and z: "z = Suc (fresh h)" and n0: "n0 = n"
    and same: "cells h1 (CPT n) = cells h (CPT n)"
    and new: "cells h1 (Suc (fresh h)) =
             \<lparr>shape = shape (cells h (CPT n)), data = blend 0 (data (cells h (CPT n))) (data rand)\<rparr>"
    by auto
  from mixed_random_wf [OF ne r] assms(2) have "length (data (cells h (CPT n))) \<le> length (data rand)"
    by (simp add: wf_array_def)
  then have "blend 0 (data (cells h (CPT n))) (data rand) = data (cells h (CPT n))"
    by (rule blend_zero)
  with new z n0 same show ?thesis by simp
next
  case False
  with perturb_mixed_sliver [OF assms(1) False assms(3)]
  obtain rand indo cb rb c1 where r: "mixed_random (shape (cells h (CPT n))) rnd = Inr rand"
    and ne: "shape (cells h (CPT n)) \<noteq> []"
    and cb: "getitem (cells h (CPT n)) indo = Inr cb" and rb: "getitem rand indo = Inr rb"
    and c1: "setitem (cells h (CPT n)) indo (blend 0 (data cb) (data rb)) = Inr c1"
    and z: "z = CPT n" and n0: "n0 = n" and new: "cells h1 (CPT n) = c1"
    by auto
  from mixed_random_wf [OF ne r] assms(2)
  have "shape rand = shape (cells h (CPT n))" "length (data rand) = length (data (cells h (CPT n)))"
    by (simp_all add: wf_array_def)
  with getitem_same_length [OF cb rb] have "length (data cb) \<le> length (data rb)" by simp
  then have "blend 0 (data cb) (data rb) = data cb" by (rule blend_zero)
  with c1 setitem_same_block [OF cb] have "c1 = cells h (CPT n)" by simp
  with z n0 new show ?thesis by simp
qed

text \<open>
  Claim C9. \<open>perturbCPT\<close> with \<open>noise = 0\<close> in mixed mode leaves the CPT unchanged,
  whether it perturbs the whole tensor or a sliver: whenever the call returns, the array
  that the node's \<open>CPT\<close> then refers to has the shape and the elements the node's CPT had
  before (in exact arithmetic \<open>x*(1-0) + r*0 = x\<close>). A call that raises has changed nothing.
\<close>

theorem perturbCPT_noise_zero_unchanged:
  assumes "CPT n < fresh h" and "wf_array (cells h (CPT n))"
    and "perturbCPT 0 True sliver setCPT rnd u (n, h) = Inr (ret, n1, h1)"
  shows "cells h1 (CPT n1) = cells h (CPT n)"
proof -
  from perturbCPT_mixed_Inr [OF assms(3)] obtain z n0
    where pm: "perturb_mixed 0 sliver rnd (n, h) = Inr (Some z, n0, h1)"
      and n1: "n1 = (if setCPT then n0\<lparr>CPT := z\<rparr> else n0)"
    by auto
  from perturb_mixed_noise_zero [OF assms(1,2) pm] n1 show ?thesis by auto
qed

lemma wf_node_shape:
  assumes "wf_node n h"
  shows "shape (cells h (CPT n)) = CPT_shape n" "shape (cells h (CPT n)) \<noteq> []"
    "last (shape (cells h (CPT n))) = length (space n)" "length (space n) \<noteq> 0"
    "wf_array (cells h (CPT n))" "CPT n < fresh h"
  using assms by (simp_all add: wf_node_def)

lemma perturb_mixed_sliver_result:
  assumes wf: "wf_node n h" and sl: "sliver \<noteq> []" and si: "sliver_index n sliver = Inr indo"
  shows "\<exists>rand off.
           mixed_random (CPT_shape n) rnd = Inr rand \<and> off < nrows (CPT_shape n) \<and>
           index_block (CPT_shape n) indo 0 = Some (off, [length (space n)]) \<and>
           perturb_mixed noise sliver rnd (n, h) =
             Inr (Some (CPT n), n,
                  h\<lparr>cells := (cells h)(fresh h := rand,
                        CPT n := (cells h (CPT n))\<lparr>data :=
                          take (off * length (space n)) (data (cells h (CPT n))) @
                          blend noise (row (cells h (CPT n)) off) (row rand off) @
                          drop (off * length (space n) + length (space n)) (data (cells h (CPT n)))\<rparr>),
                      fresh := Suc (fresh h)\<rparr>)"
proof -
  let ?c = "cells h (CPT n)"
  note w = wf_node_shape [OF wf]
  from w(4) obtain rand where rand: "mixed_random (CPT_shape n) rnd = Inr rand"
    using mixed_random_succeeds [of "CPT_shape n" rnd] by auto
  from mixed_random_wf [OF _ rand] have rsh: "shape rand = CPT_shape n" by simp
  from sliver_index_bounds [OF si] obtain off where off: "off < nrows (CPT_shape n)"
    and ib: "index_block (CPT_shape n) indo 0 = Some (off, [length (space n)])"
    using parent_index_row [of indo n] by auto
  have g1: "getitem ?c indo = Inr \<lparr>shape = [length (space n)], data = row ?c off\<rparr>"
    using ib w by (intro getitem_full_row) simp_all
  have g2: "getitem rand indo = Inr \<lparr>shape = [length (space n)], data = row rand off\<rparr>"
    using ib rsh by (intro getitem_full_row) simp_all
  have s1: "setitem ?c indo new = Inr (?c\<lparr>data := take (off * length (space n)) (data ?c) @ new @
              drop (off * length (space n) + length (space n)) (data ?c)\<rparr>)" for new
    using ib w by (intro setitem_full_row) simp
  have neq: "CPT n \<noteq> fresh h" using w(6) by simp
  show ?thesis
    apply (rule exI [of _ rand], rule exI [of _ off])
    using rand off ib sl si w(1,2) neq
    by (simp add: perturb_mixed_def randomCPT_mixed_unfold g1 g2 s1 Let_def)
qed

lemma sliver_row_sums:
  assumes wf: "wf_node n h" and sums: "rows_sum_to_one (cells h (CPT n))"
    and rand: "mixed_random (CPT_shape n) rnd = Inr rand"
    and rng: "\<forall>i. 1 \<le> rnd i \<and> real_of_int (rnd i) < M"
    and off: "off < nrows (CPT_shape n)"
  shows "rows_sum_to_one ((cells h (CPT n))\<lparr>data :=
            take (off * length (space n)) (data (cells h (CPT n))) @
            blend noise (row (cells h (CPT n)) off) (row rand off) @
            drop (off * length (space n) + length (space n)) (data (cells h (CPT n)))\<rparr>)"
proof -
  let ?c = "cells h (CPT n)"
  let ?new = "blend noise (row ?c off) (row rand off)"
  note w = wf_node_shape [OF wf]
  from mixed_random_sums [OF _ rand rng]
  have r: "rows_sum_to_one rand" "wf_array rand" "shape rand = CPT_shape n" by simp_all
  have lc: "length (row ?c off) = length (space n)" using w off by (simp add: length_row)
  have lr: "length (row rand off) = length (space n)" using r off by (simp add: length_row)
  have ln: "length ?new = last (shape ?c)" using lc lr w by (simp add: length_blend)
  have sn: "sum_list ?new = 1"
    using lc lr sums r(1) off w(1) r(3) by (simp add: sum_list_blend rows_sum_to_one_def)
  have "sum_list (row (?c\<lparr>data := take (off * last (shape ?c)) (data ?c) @ ?new @
                        drop (off * last (shape ?c) + last (shape ?c)) (data ?c)\<rparr>) i) = 1"
    if "i < nrows (shape ?c)" for i
    using row_update [OF w(5) w(2) _ that ln, of off] off w(1) sn sums that
    by (simp add: rows_sum_to_one_def)
  then show ?thesis using w by (simp add: rows_sum_to_one_def)
qed

text \<open>
  Claim C10. In mixed mode with a non-empty sliver and \<open>setCPT = False\<close>, \<open>perturbCPT\<close>
  still changes the node's live CPT: the reference it returns is the node's own \<open>CPT\<close>
  (the local \<open>z\<close> is an alias, not a copy), and after the call the slice of the live CPT
  at the sliver's index holds the blend of the old slice and the random one.
\<close>

theorem perturbCPT_sliver_in_place:
  assumes "wf_node n h" and "sliver \<noteq> []" and "sliver_index n sliver = Inr indo"
  shows "\<exists>h1 rand cb rb.
           perturbCPT noise True sliver False rnd u (n, h) = Inr (Some (CPT n), n, h1) \<and>
           mixed_random (CPT_shape n) rnd = Inr rand \<and>
           getitem (cells h (CPT n)) indo = Inr cb \<and> getitem rand indo = Inr rb \<and>
           getitem (cells h1 (CPT n)) indo = Inr (cb\<lparr>data := blend noise (data cb) (data rb)\<rparr>)"
proof -
  let ?c = "cells h (CPT n)"
  let ?k = "length (space n)"
  note w = wf_node_shape [OF assms(1)]
  from perturb_mixed_sliver_result [OF assms, of rnd noise] obtain rand off h1
    where rand: "mixed_random (CPT_shape n) rnd = Inr rand" and off: "off < nrows (CPT_shape n)"
      and ib: "index_block (CPT_shape n) indo 0 = Some (off, [?k])"
      and pm: "perturb_mixed noise sliver rnd (n, h) = Inr (Some (CPT n), n, h1)"
      and h1: "cells h1 (CPT n) = ?c\<lparr>data := take (off * ?k) (data ?c) @
                  blend noise (row ?c off) (row rand off) @ drop (off * ?k + ?k) (data ?c)\<rparr>"
    by (auto simp: wf_node_def)
  from mixed_random_wf [OF _ rand] have r: "wf_array rand" "shape rand = CPT_shape n" by simp_all
  let ?new = "blend noise (row ?c off) (row rand off)"
  have lc: "length (row ?c off) = ?k" using w off by (simp add: length_row)
  have lr: "length (row rand off) = ?k" using r off by (simp add: length_row)
  have ln: "length ?new = last (shape ?c)" using lc lr w by (simp add: length_blend)
  have g1: "getitem ?c indo = Inr \<lparr>shape = [?k], data = row ?c off\<rparr>"
    using ib w by (intro getitem_full_row) simp_all
  have g2: "getitem rand indo = Inr \<lparr>shape = [?k], data = row rand off\<rparr>"
    using ib r by (intro getitem_full_row) simp_all
  have "row (cells h1 (CPT n)) off = ?new"
    using row_update [OF w(5) w(2) _ _ ln, of off off] off w(1,3) h1 by simp
  moreover have "shape (cells h1 (CPT n)) = CPT_shape n" using h1 w by simp
  ultimately have g3: "getitem (cells h1 (CPT n)) indo = Inr \<lparr>shape = [?k], data = ?new\<rparr>"
    using getitem_full_row [of "cells h1 (CPT n)" indo off ?k] ib by simp
  from pm have "perturbCPT noise True sliver False rnd u (n, h) = Inr (Some (CPT n), n, h1)"
    by (simp add: perturbCPT_def)
  with rand g1 g2 g3 show ?thesis by auto
qed

lemma uniformCPT_unfold:
  "uniformCPT setCPT (n, h) =
     (if shape (cells h (CPT n)) = [] then Inl (IndexError ''tuple index out of range'')
      else if last (shape (cells h (CPT n))) = 0 then Inl (ZeroDivisionError ''division by zero'')
      else Inr (if setCPT then None else Some (fresh h),
                if setCPT then n\<lparr>CPT := fresh h\<rparr> else n,
                h\<lparr>cells := (cells h)(fresh h := uniform_array (shape (cells h (CPT n)))),
                  fresh := Suc (fresh h)\<rparr>))"
  by (simp add: uniformCPT_def alloc_def Let_def)

lemma uniformCPT_sums:
  assumes "wf_node n h"
  shows "\<exists>n1 h1. uniformCPT True (n, h) = Inr (None, n1, h1) \<and> rows_sum_to_one (cells h1 (CPT n1))"
  using wf_node_shape [OF assms] by (simp add: uniformCPT_unfold uniform_array_sums)

lemma randomCPT_mixed_sums:
  assumes "wf_node n h" and "\<forall>i. 1 \<le> rnd i \<and> real_of_int (rnd i) < M"
  shows "\<exists>n1 h1. randomCPT True True rnd (n, h) = Inr (None, n1, h1) \<and>
           rows_sum_to_one (cells h1 (CPT n1))"
proof -
  note w = wf_node_shape [OF assms(1)]
  from w(4) obtain rand where rand: "mixed_random (CPT_shape n) rnd = Inr rand"
    using mixed_random_succeeds [of "CPT_shape n" rnd] by auto
  from mixed_random_sums [OF _ rand assms(2)] have "rows_sum_to_one rand" by simp
  with rand w show ?thesis by (simp add: randomCPT_mixed_unfold)
qed

lemma perturb_mixed_whole_result:
  assumes wf: "wf_node n h"
  shows "\<exists>rand. mixed_random (CPT_shape n) rnd = Inr rand \<and>
           perturb_mixed noise [] rnd (n, h) =
             Inr (Some (Suc (fresh h)), n,
                  h\<lparr>cells := (cells h)(fresh h := rand,
                        Suc (fresh h) := \<lparr>shape = CPT_shape n,
                           data = blend noise (data (cells h (CPT n))) (data rand)\<rparr>),
                      fresh := Suc (Suc (fresh h))\<rparr>)"
proof -
  note w = wf_node_shape [OF wf]
  from w(4) obtain rand where rand: "mixed_random (CPT_shape n) rnd = Inr rand"
    using mixed_random_succeeds [of "CPT_shape n" rnd] by auto
  have neq: "CPT n \<noteq> fresh h" using w(6) by simp
  show ?thesis
    apply (rule exI [of _ rand])
    using rand w(1,2) neq
    by (simp add: perturb_mixed_def randomCPT_mixed_unfold alloc_def Let_def)
qed

lemma perturbCPT_mixed_sums:
  assumes wf: "wf_node n h" and rng: "\<forall>i. 1 \<le> rnd i \<and> real_of_int (rnd i) < M"
    and sums: "rows_sum_to_one (cells h (CPT n))"
    and sl: "sliver = [] \<or> (\<exists>indo. sliver_index n sliver = Inr indo)"
  shows "\<exists>n1 h1. perturbCPT noise True sliver True rnd u (n, h) = Inr (None, n1, h1) \<and>
           rows_sum_to_one (cells h1 (CPT n1))"
proof (cases "sliver = []")
  case True
  note w = wf_node_shape [OF wf]
  from perturb_mixed_whole_result [OF wf, of rnd noise] obtain rand
    where rand: "mixed_random (CPT_shape n) rnd = Inr rand"
      and pm: "perturb_mixed noise [] rnd (n, h) =
             Inr (Some (Suc (fresh h)), n,
                  h\<lparr>cells := (cells h)(fresh h := rand,
                        Suc (fresh h) := \<lparr>shape = CPT_shape n,
                           data = blend noise (data (cells h (CPT n))) (data rand)\<rparr>),
                      fresh := Suc (Suc (fresh h))\<rparr>)"
    by auto
  from mixed_random_sums [OF _ rand rng]
  have r: "rows_sum_to_one rand" "wf_array rand" "shape rand = CPT_shape n" by simp_all
  have "rows_sum_to_one \<lparr>shape = shape (cells h (CPT n)),
          data = blend noise (data (cells h (CPT n))) (data rand)\<rparr>"
    using w sums r by (intro blend_rows_sum_to_one) simp_all
  with pm True w(1) show ?thesis by (simp add: perturbCPT_def)
next
  case False
  with sl obtain indo where si: "sliver_index n sliver = Inr indo" by auto
  from perturb_mixed_sliver_result [OF wf False si, of rnd noise] obtain rand off h1
    where rand: "mixed_random (CPT_shape n) rnd = Inr rand" and off: "off < nrows (CPT_shape n)"
      and pm: "perturb_mixed noise sliver rnd (n, h) = Inr (Some (CPT n), n, h1)"
      and h1: "cells h1 (CPT n) = (cells h (CPT n))\<lparr>data :=
                  take (off * length (space n)) (data (cells h (CPT n))) @
                  blend noise (row (cells h (CPT n)) off) (row rand off) @
                  drop (off * length (space n) + length (space n)) (data (cells h (CPT n)))\<rparr>"
    by (auto simp: wf_node_def)
  from sliver_row_sums [OF wf sums rand rng off, of noise] h1
  have "rows_sum_to_one (cells h1 (CPT n))" by simp
  with pm show ?thesis by (simp add: perturbCPT_def)
qed

text \<open>
  Claim C2. For a decision node, \<open>uniformCPT()\<close>, \<open>randomCPT(mixed=True)\<close> and, on a CPT whose
  rows already sum to 1, \<open>perturbCPT(noise, mixed=True)\<close> (whole tensor, or a sliver whose
  index resolves) return, and the row of every parent configuration of the resulting CPT
  sums to 1, in exact arithmetic. The draws of \<^verbatim>\<open>randint.rvs(1, M, ...)\<close> lie in \<open>[1, M)\<close>.
\<close>

theorem generated_CPT_rows_sum_to_one:
  assumes "wf_node n h" and "\<forall>i. 1 \<le> rnd i \<and> real_of_int (rnd i) < M"
  shows "(\<exists>n1 h1. uniformCPT True (n, h) = Inr (None, n1, h1) \<and>
            rows_sum_to_one (cells h1 (CPT n1))) \<and>
         (\<exists>n1 h1. randomCPT True True rnd (n, h) = Inr (None, n1, h1) \<and>
            rows_sum_to_one (cells h1 (CPT n1))) \<and>
         (rows_sum_to_one (cells h (CPT n)) \<and>
          (sliver = [] \<or> (\<exists>indo. sliver_index n sliver = Inr indo)) \<longrightarrow>
            (\<exists>n1 h1. perturbCPT noise True sliver True rnd u (n, h) = Inr (None, n1, h1) \<and>
               rows_sum_to_one (cells h1 (CPT n1))))"
  using uniformCPT_sums [OF assms(1)] randomCPT_mixed_sums [OF assms]
    perturbCPT_mixed_sums [OF assms, of sliver noise u]
  by blast

subsection \<open>The concrete node\<close>

lemma ex_wf_node: "wf_node ex_node ex_heap"
  by (simp add: wf_node_def ex_node_def ex_heap_def ex_parent_def wf_array_def CPT_shape_def)

lemma ex_rnd_range: "\<forall>i. 1 \<le> ex_rnd i \<and> real_of_int (ex_rnd i) < M"
  by (simp add: ex_rnd_def M_def)

lemma ex_rows_sum_to_one: "rows_sum_to_one (cells ex_heap (CPT ex_node))"
proof -
  have "sum_list (row (cells ex_heap (CPT ex_node)) i) = 1" if "i < 3" for i
  proof -
    from that consider "i = 0" | "i = 1" | "i = 2" by linarith
    then show ?thesis
      by cases (simp_all add: ex_node_def ex_heap_def row_def last_dim_def)
  qed
  then show ?thesis
    by (simp add: rows_sum_to_one_def ex_node_def ex_heap_def nrows_def)
qed

lemma ex_sliver_index: "sliver_index ex_node ex_sliver = Inr [2]"
  by (simp add: sliver_index_def ex_sliver_def ex_node_def ex_parent_def truth_index_def index_of_def)

lemma ex_any_nonzero: "any_nonzero (cells ex_heap (CPT ex_node))"
  by (simp add: any_nonzero_def ex_node_def ex_heap_def)

theorem generated_CPT_rows_sum_to_one_witness:
  "(\<exists>n1 h1. uniformCPT True (ex_node, ex_heap) = Inr (None, n1, h1) \<and>
      rows_sum_to_one (cells h1 (CPT n1))) \<and>
   (\<exists>n1 h1. randomCPT True True ex_rnd (ex_node, ex_heap) = Inr (None, n1, h1) \<and>
      rows_sum_to_one (cells h1 (CPT n1))) \<and>
   (\<exists>n1 h1. perturbCPT (1/2) True ex_sliver True ex_rnd ex_u (ex_node, ex_heap) = Inr (None, n1, h1) \<and>
      rows_sum_to_one (cells h1 (CPT n1)))"
  using generated_CPT_rows_sum_to_one [OF ex_wf_node ex_rnd_range, of ex_sliver "1/2" ex_u]
    ex_rows_sum_to_one ex_sliver_index
  by blast

theorem perturbCPT_sliver_in_place_witness:
  "\<exists>h1 rand cb rb.
     perturbCPT (1/2) True ex_sliver False ex_rnd ex_u (ex_node, ex_heap)
       = Inr (Some (CPT ex_node), ex_node, h1) \<and>
     mixed_random (CPT_shape ex_node) ex_rnd = Inr rand \<and>
     getitem (cells ex_heap (CPT ex_node)) [2] = Inr cb \<and> getitem rand [2] = Inr rb \<and>
     getitem (cells h1 (CPT ex_node)) [2] = Inr (cb\<lparr>data := blend (1/2) (data cb) (data rb)\<rparr>)"
  using perturbCPT_sliver_in_place [OF ex_wf_node _ ex_sliver_index, of "1/2" ex_rnd ex_u]
  by (simp add: ex_sliver_def)

lemma sliver_perturbation_example:
  "map_sum id (\<lambda>(ret, n1, h1). (ret, CPT n1, cells h1 0))
     (perturbCPT (1/2) True ex_sliver False ex_rnd ex_u (ex_node, ex_heap))
   = Inr (Some 0, 0, \<lparr>shape = [3, 2], data = [1/2, 1/2, 1/4, 3/4, 5/8, 3/8]\<rparr>)"
  by (simp add: perturbCPT_def perturb_mixed_def randomCPT_def mixed_random_def alloc_def
      ex_sliver_def ex_node_def ex_heap_def ex_parent_def ex_rnd_def sliver_index_def
      truth_index_def index_of_def getitem_def setitem_def blend_def stick_row_def M_def nrows_def
      Let_def upt_conv_Cons)

theorem perturbCPT_noise_zero_witness:
  "\<exists>n1 h1. perturbCPT 0 True ex_sliver True ex_rnd ex_u (ex_node, ex_heap) = Inr (None, n1, h1) \<and>
     cells h1 (CPT n1) = cells ex_heap (CPT ex_node)"
proof -
  from perturbCPT_mixed_sums [OF ex_wf_node ex_rnd_range ex_rows_sum_to_one, of ex_sliver 0 ex_u]
    ex_sliver_index
  obtain n1 h1 where r: "perturbCPT 0 True ex_sliver True ex_rnd ex_u (ex_node, ex_heap) = Inr (None, n1, h1)"
    by blast
  have a: "CPT ex_node < fresh ex_heap" and b: "wf_array (cells ex_heap (CPT ex_node))"
    using ex_wf_node by (simp_all add: wf_node_def)
  from perturbCPT_noise_zero_unchanged [OF a b r] r show ?thesis by blast
qed

subsection \<open>Looking up and sampling\<close>

lemma index_block_flat:
  "index_block shp ind acc = Some (off, []) \<Longrightarrow> off = acc * prod_list shp + flat_index shp ind"
proof (induction shp ind acc rule: index_block.induct)
  case (1 shp off)
  then show ?case by simp
next
  case (2 i ind off)
  then show ?case by simp
next
  case (3 d shp i ind acc)
  then show ?case by (auto simp: algebra_simps split: if_splits)
qed

lemma position_Inr: "position spc v = Inr i \<Longrightarrow> i < length spc \<and> spc ! i = v"
  by (auto simp: position_def index_of_def split: option.splits dest!: first_where_Some)

lemma position_member: "v \<in> set spc \<Longrightarrow> \<exists>i. position spc v = Inr i"
  by (cases "first_where (\<lambda>x. x = v) spc") (auto simp: position_def index_of_def first_where_None)


lemma get_CPTindex_full:
  assumes "get_CPTindex n (dict2list_vals n parentinput (Some v)) False = Inr indo"
  shows "length indo = length (parents n) + 1 \<and>
         (\<forall>j<length (parents n). indo ! j < length (pspace (snd (parents n ! j))) \<and>
            pspace (snd (parents n ! j)) ! (indo ! j) = chosen_value parentinput (parents n ! j)) \<and>
         indo ! length (parents n) < length (space n) \<and> space n ! (indo ! length (parents n)) = v"
proof -
  let ?sp = "map (\<lambda>(par, p). pspace p) (parents n) @ [space n]"
  let ?vs = "map (chosen_value parentinput) (parents n) @ [v]"
  have vs: "dict2list_vals n parentinput (Some v) = ?vs"
    by (simp add: dict2list_vals_def chosen_value_def)
  from assms have m: "mapE (\<lambda>(spc, v). position spc v) (zip ?sp ?vs) = Inr indo"
    by (simp add: get_CPTindex_def vs)
  from mapE_Inr [OF m] have len: "length indo = length (parents n) + 1"
    and each: "\<forall>j<length (zip ?sp ?vs). (case zip ?sp ?vs ! j of (spc, v) \<Rightarrow> position spc v) = Inr (indo ! j)"
    by auto
  have E: "position (?sp ! j) (?vs ! j) = Inr (indo ! j)" if "j < length (parents n) + 1" for j
  proof -
    from that have j: "j < length (zip ?sp ?vs)" by simp
    have "zip ?sp ?vs ! j = (?sp ! j, ?vs ! j)" using that by (intro nth_zip) simp_all
    with each [rule_format, OF j] show ?thesis by (simp only: prod.case)
  qed
  have "indo ! j < length (pspace (snd (parents n ! j))) \<and>
        pspace (snd (parents n ! j)) ! (indo ! j) = chosen_value parentinput (parents n ! j)"
    if "j < length (parents n)" for j
  proof -
    from E [of j] that have "position (pspace (snd (parents n ! j))) (chosen_value parentinput (parents n ! j)) = Inr (indo ! j)"
      by (simp add: nth_append case_prod_unfold)
    then show ?thesis by (rule position_Inr)
  qed
  moreover from E [of "length (parents n)"] have "position (space n) v = Inr (indo ! length (parents n))"
    by (simp add: nth_append)
  then have "indo ! length (parents n) < length (space n) \<and> space n ! (indo ! length (parents n)) = v"
    by (rule position_Inr)
  ultimately show ?thesis using len by simp
qed

lemma CPT_shape_nth:
  "j < length (parents n) \<Longrightarrow> CPT_shape n ! j = length (pspace (snd (parents n ! j)))"
  "CPT_shape n ! length (parents n) = length (space n)"
  by (simp_all add: CPT_shape_def nth_append case_prod_unfold)

lemma take_one_drop: "i < length xs \<Longrightarrow> take (Suc 0) (drop i xs) = [xs ! i]"
  by (simp add: take_Suc_conv_app_nth)

lemma prob_entry:
  assumes wf: "wf_node n h" and nz: "any_nonzero (cells h (CPT n))"
    and res: "get_CPTindex n (dict2list_vals n parentinput
                (Some (case valueinput of None \<Rightarrow> value' n | Some x \<Rightarrow> x))) False = Inr indo"
  shows "flat_index (CPT_shape n) indo < length (data (cells h (CPT n))) \<and>
         prob parentinput valueinput (n, h) =
           Inr \<lparr>shape = [], data = [data (cells h (CPT n)) ! flat_index (CPT_shape n) indo]\<rparr>"
proof -
  let ?c = "cells h (CPT n)"
  note w = wf_node_shape [OF wf]
  from get_CPTindex_full [OF res] have len: "length indo = length (CPT_shape n)"
    and par: "\<forall>j<length (parents n). indo ! j < length (pspace (snd (parents n ! j)))"
    and own: "indo ! length (parents n) < length (space n)"
    by simp_all
  have "indo ! j < CPT_shape n ! j" if "j < length indo" for j
  proof (cases "j < length (parents n)")
    case True
    with par show ?thesis by (simp add: CPT_shape_nth)
  next
    case False
    with that len have "j = length (parents n)" by simp
    with own show ?thesis by (simp add: CPT_shape_nth)
  qed
  with len obtain off where ib: "index_block (CPT_shape n) indo 0 = Some (off, [])"
    using index_block_exists [of indo "CPT_shape n" "[]" 0] by auto
  from index_block_flat [OF ib] have off: "off = flat_index (CPT_shape n) indo" by simp
  from index_block_bounds [OF ib] len have "off < prod_list (CPT_shape n)" by simp
  with w have lt: "off < length (data ?c)" by (simp add: wf_array_def)
  have "getitem ?c indo = Inr \<lparr>shape = [], data = [data ?c ! off]\<rparr>"
    using ib w(1) lt by (simp add: getitem_def take_one_drop)
  with nz res off lt show ?thesis by (simp add: prob_def Let_def)
qed






lemma draw_value_member:
  "draw_value parentinput setvalue mode cutoff (n, h) = Inr (r, n1) \<Longrightarrow> r \<in> set (space n)"
  by (auto simp: draw_value_def bindE_eq_Inr space_at_def Let_def split: if_splits)

text \<open>
  Claim C5. For a decision node with a non-zero CPT, \<open>prob(parentinput, valueinput)\<close>
  returns the CPT entry at the resolved index: the index holds, for each parent, the
  position of the caller's value for it (or of the parent's current value when the caller
  gave none) and, last, the position of \<open>valueinput\<close> (or of the node's current value);
  the entry is the element at the row-major position of that index. \<open>logprob\<close> returns its
  natural logarithm, which is minus infinity when the entry is exactly zero.
\<close>

theorem prob_logprob_entry:
  assumes "wf_node n h" and "any_nonzero (cells h (CPT n))"
    and "get_CPTindex n (dict2list_vals n parentinput
           (Some (case valueinput of None \<Rightarrow> value' n | Some x \<Rightarrow> x))) False = Inr indo"
  shows "length indo = length (parents n) + 1 \<and>
         (\<forall>j<length (parents n).
            pspace (snd (parents n ! j)) ! (indo ! j) = chosen_value parentinput (parents n ! j)) \<and>
         space n ! (indo ! length (parents n)) = (case valueinput of None \<Rightarrow> value' n | Some x \<Rightarrow> x) \<and>
         flat_index (CPT_shape n) indo < length (data (cells h (CPT n))) \<and>
         prob parentinput valueinput (n, h) =
           Inr \<lparr>shape = [], data = [data (cells h (CPT n)) ! flat_index (CPT_shape n) indo]\<rparr> \<and>
         logprob parentinput valueinput (n, h) =
           Inr \<lparr>shape = [],
                data = [let p = data (cells h (CPT n)) ! flat_index (CPT_shape n) indo
                        in if p = 0 then NegInf else if p < 0 then NaN else Finite (ln p)]\<rparr>"
proof -
  from get_CPTindex_full [OF assms(3)]
  have "length indo = length (parents n) + 1"
    "\<forall>j<length (parents n).
       pspace (snd (parents n ! j)) ! (indo ! j) = chosen_value parentinput (parents n ! j)"
    "space n ! (indo ! length (parents n)) = (case valueinput of None \<Rightarrow> value' n | Some x \<Rightarrow> x)"
    by simp_all
  moreover from prob_entry [OF assms]
  have "flat_index (CPT_shape n) indo < length (data (cells h (CPT n)))"
    and p: "prob parentinput valueinput (n, h) =
           Inr \<lparr>shape = [], data = [data (cells h (CPT n)) ! flat_index (CPT_shape n) indo]\<rparr>"
    by simp_all
  moreover from p have "logprob parentinput valueinput (n, h) =
           Inr \<lparr>shape = [],
                data = [let p = data (cells h (CPT n)) ! flat_index (CPT_shape n) indo
                        in if p = 0 then NegInf else if p < 0 then NaN else Finite (ln p)]\<rparr>"
    by (simp add: logprob_def np_log_def Let_def)
  ultimately show ?thesis by blast
qed

lemma ex_CPT: "cells ex_heap (CPT ex_node) = \<lparr>shape = [3, 2], data = [1/2, 1/2, 1/4, 3/4, 1, 0]\<rparr>"
  by (simp add: ex_node_def ex_heap_def)

lemma ex_space: "space ex_node = [PyVal 0, PyVal 1]"
  by (simp add: ex_node_def)

lemma ex_index_1: "get_CPTindex ex_node (dict2list_vals ex_node []
           (Some (case Some (PyVal 1) of None \<Rightarrow> value' ex_node | Some x \<Rightarrow> x))) False = Inr [1, 1]"
  by (simp add: get_CPTindex_def dict2list_vals_def ex_node_def ex_parent_def position_def index_of_def)

lemma ex_index_2: "get_CPTindex ex_node (dict2list_vals ex_node [(''C1'', NpVal [2])]
           (Some (case Some (PyVal 1) of None \<Rightarrow> value' ex_node | Some x \<Rightarrow> x))) False = Inr [2, 1]"
  by (simp add: get_CPTindex_def dict2list_vals_def ex_node_def ex_parent_def position_def index_of_def)

theorem prob_logprob_entry_witness:
  "prob [] (Some (PyVal 1)) (ex_node, ex_heap) = Inr \<lparr>shape = [], data = [3/4]\<rparr> \<and>
   logprob [] (Some (PyVal 1)) (ex_node, ex_heap) = Inr \<lparr>shape = [], data = [Finite (ln (3/4))]\<rparr> \<and>
   prob [(''C1'', NpVal [2])] (Some (PyVal 1)) (ex_node, ex_heap) = Inr \<lparr>shape = [], data = [0]\<rparr> \<and>
   logprob [(''C1'', NpVal [2])] (Some (PyVal 1)) (ex_node, ex_heap) = Inr \<lparr>shape = [], data = [NegInf]\<rparr>"
proof -
  have sh: "CPT_shape ex_node = [3, 2]"
    by (simp add: CPT_shape_def ex_node_def ex_parent_def)
  have f: "flat_index [3, 2] [1, 1] = 3" "flat_index [3, 2] [2, 1] = 5"
    by simp_all
  from prob_logprob_entry [OF ex_wf_node ex_any_nonzero ex_index_1]
  have "prob [] (Some (PyVal 1)) (ex_node, ex_heap) =
          Inr \<lparr>shape = [], data = [data (cells ex_heap (CPT ex_node)) ! flat_index (CPT_shape ex_node) [1, 1]]\<rparr>"
    and "logprob [] (Some (PyVal 1)) (ex_node, ex_heap) =
          Inr \<lparr>shape = [],
                data = [let p = data (cells ex_heap (CPT ex_node)) ! flat_index (CPT_shape ex_node) [1, 1]
                        in if p = 0 then NegInf else if p < 0 then NaN else Finite (ln p)]\<rparr>"
    by blast+
  moreover from prob_logprob_entry [OF ex_wf_node ex_any_nonzero ex_index_2]
  have "prob [(''C1'', NpVal [2])] (Some (PyVal 1)) (ex_node, ex_heap) =
          Inr \<lparr>shape = [], data = [data (cells ex_heap (CPT ex_node)) ! flat_index (CPT_shape ex_node) [2, 1]]\<rparr>"
    and "logprob [(''C1'', NpVal [2])] (Some (PyVal 1)) (ex_node, ex_heap) =
          Inr \<lparr>shape = [],
                data = [let p = data (cells ex_heap (CPT ex_node)) ! flat_index (CPT_shape ex_node) [2, 1]
                        in if p = 0 then NegInf else if p < 0 then NaN else Finite (ln p)]\<rparr>"
    by blast+
  ultimately show ?thesis by (simp add: sh f ex_CPT)
qed


lemma ex_parent_index: "get_CPTindex ex_node (dict2list_vals ex_node [] None) True = Inr [1]"
  by (simp add: get_CPTindex_def dict2list_vals_def ex_node_def ex_parent_def position_def index_of_def)


lemma draw_value_example:
  "draw_value [] False False (3/10) (ex_node, ex_heap) = Inr (PyVal 1, ex_node) \<and>
   draw_value [] False True (3/10) (ex_node, ex_heap) = Inr (PyVal 1, ex_node)"
  by (simp add: draw_value_def any_nonzero_def ex_parent_index ex_CPT ex_space getitem_def
      cumsum_def first_ge_def argmax_def space_at_def)

subsection \<open>The solver\<close>

lemma digit_char_inj: "a < 10 \<Longrightarrow> b < 10 \<Longrightarrow> digit_char a = digit_char b \<Longrightarrow> a = b"
proof -
  assume a: "a < 10" and b: "b < 10" and eq: "digit_char a = digit_char b"
  from eq have "of_char (char_of (48 + a) :: char) = (of_char (char_of (48 + b) :: char) :: nat)"
    by (simp add: digit_char_def)
  with a b show ?thesis by (simp add: of_char_of)
qed

lemma digit_char_not_minus: "d < 10 \<Longrightarrow> digit_char d \<noteq> CHR ''-''"
proof
  assume d: "d < 10" and eq: "digit_char d = CHR ''-''"
  from eq have "(of_char (char_of (48 + d) :: char) :: nat) = of_char CHR ''-''"
    by (simp add: digit_char_def)
  with d show False by (simp add: of_char_of)
qed

lemma str_nat_nonempty: "str_nat n \<noteq> []"
  by (subst str_nat.simps) simp

lemma str_nat_small: "n < 10 \<Longrightarrow> str_nat n = [digit_char n]"
  by (subst str_nat.simps) simp

lemma str_nat_big: "\<not> n < 10 \<Longrightarrow> str_nat n = str_nat (n div 10) @ [digit_char (n mod 10)]"
  by (subst str_nat.simps) simp

lemma str_nat_inj: "str_nat a = str_nat b \<Longrightarrow> a = b"
proof (induction a arbitrary: b rule: str_nat.induct)
  case (1 a)
  show ?case
  proof (cases "a < 10")
    case True
    with "1.prems" have eq: "[digit_char a] = str_nat b" by (simp add: str_nat_small)
    have "b < 10"
    proof (rule ccontr)
      assume "\<not> b < 10"
      with eq have "[digit_char a] = str_nat (b div 10) @ [digit_char (b mod 10)]"
        by (simp add: str_nat_big)
      then show False using str_nat_nonempty [of "b div 10"] by simp
    qed
    with eq True show ?thesis by (auto simp: str_nat_small dest: digit_char_inj)
  next
    case False
    with "1.prems" have eq: "str_nat (a div 10) @ [digit_char (a mod 10)] = str_nat b"
      by (simp add: str_nat_big)
    have nb: "\<not> b < 10"
    proof
      assume "b < 10"
      with eq have "str_nat (a div 10) @ [digit_char (a mod 10)] = [digit_char b]"
        by (simp add: str_nat_small)
      then show False using str_nat_nonempty [of "a div 10"] by simp
    qed
    with eq have "str_nat (a div 10) = str_nat (b div 10)" "digit_char (a mod 10) = digit_char (b mod 10)"
      by (simp_all add: str_nat_big)
    then have "a div 10 = b div 10" "a mod 10 = b mod 10"
      using "1.IH" [OF False, of "b div 10"] digit_char_inj [of "a mod 10" "b mod 10"] by simp_all
    then show ?thesis by (metis div_mult_mod_eq)
  qed
qed

lemma str_nat_hd_not_minus: "hd (str_nat n) \<noteq> CHR ''-''"
proof (induction n rule: str_nat.induct)
  case (1 n)
  show ?case
  proof (cases "n < 10")
    case True
    then show ?thesis by (simp add: str_nat_small digit_char_not_minus)
  next
    case False
    with "1.IH" show ?thesis by (simp add: str_nat_big str_nat_nonempty)
  qed
qed

lemma str_int_inj: "str_int i = str_int j \<Longrightarrow> i = j"
proof -
  assume eq: "str_int i = str_int j"
  have ne: "CHR ''-'' # str_nat a \<noteq> str_nat b" for a b
    using str_nat_hd_not_minus [of b] by (metis list.sel(1))
  consider "i < 0" "j < 0" | "i < 0" "\<not> j < 0" | "\<not> i < 0" "j < 0" | "\<not> i < 0" "\<not> j < 0" by blast
  then show ?thesis
  proof cases
    case 1
    with eq have "nat (- i) = nat (- j)" by (auto simp: str_int_def dest: str_nat_inj)
    with 1 show ?thesis by simp
  next
    case 2
    with eq ne show ?thesis by (simp add: str_int_def)
  next
    case 3
    with eq ne [of "nat (- j)" "nat i"] show ?thesis by (simp add: str_int_def)
  next
    case 4
    with eq have "nat i = nat j" by (auto simp: str_int_def dest: str_nat_inj)
    with 4 show ?thesis by simp
  qed
qed

lemma level_key_inj [simp]: "level_key i = level_key j \<longleftrightarrow> i = j"
  by (auto simp: level_key_def dest: str_int_inj)

lemma same_config_refl: "same_config s s"
  by (simp add: same_config_def)

lemma same_config_trans: "same_config s s1 \<Longrightarrow> same_config s1 s2 \<Longrightarrow> same_config s s2"
  by (simp add: same_config_def)

lemma same_config_configured: "same_config s s1 \<Longrightarrow> configured s1 = configured s"
  by (simp add: same_config_def configured_def)

lemma same_config_controlled: "same_config s s1 \<Longrightarrow> controlled_nodes s1 = controlled_nodes s"
  by (simp add: same_config_def controlled_nodes_def)

lemma trained_Nil: "trained [] s s"
  by (simp add: trained_def same_config_refl)

lemma trained_append:
  assumes "trained cs s s1" and "trained ds s1 s2"
  shows "trained (cs @ ds) s s2"
proof -
  from assms have "same_config s s2" by (auto simp: trained_def intro: same_config_trans)
  moreover from assms have "stdout s2 = stdout s @ map (\<lambda>(nodename, level). training_msg nodename level) (cs @ ds)"
    by (simp add: trained_def)
  moreover have "level_entry s2 nm l = level_entry s nm l" if "(nm, l) \<notin> set (cs @ ds)" for nm l
    using assms that by (simp add: trained_def)
  moreover have "level_entry s2 nm l \<noteq> None" if "(nm, l) \<in> set (cs @ ds)" for nm l
  proof (cases "(nm, l) \<in> set ds")
    case True
    with assms(2) show ?thesis by (simp add: trained_def)
  next
    case False
    with that have "(nm, l) \<in> set cs" by simp
    with assms(1) have "level_entry s1 nm l \<noteq> None" by (simp add: trained_def)
    moreover from assms(2) False have "level_entry s2 nm l = level_entry s1 nm l" by (simp add: trained_def)
    ultimately show ?thesis by simp
  qed
  ultimately show ?thesis unfolding trained_def by blast
qed

lemma forE_trained:
  assumes "\<And>s x. x \<in> set xs \<Longrightarrow> same_config s0 s \<Longrightarrow> \<exists>s1. body s x = Inr s1 \<and> trained (calls x) s s1"
    and "same_config s0 s"
  shows "\<exists>s1. forE body xs s = Inr s1 \<and> trained (concat (map calls xs)) s s1"
  using assms
proof (induction xs arbitrary: s)
  case Nil
  then show ?case by (simp add: trained_Nil)
next
  case (Cons x xs)
  from Cons.prems(1) [of x s] Cons.prems(2) obtain s1 where b: "body s x = Inr s1"
    and t1: "trained (calls x) s s1" by auto
  from t1 Cons.prems(2) have sc: "same_config s0 s1"
    by (auto simp: trained_def intro: same_config_trans)
  have "\<exists>s2. forE body xs s1 = Inr s2 \<and> trained (concat (map calls xs)) s1 s2"
    using Cons.prems(1) sc by (intro Cons.IH) auto
  then obtain s2 where f: "forE body xs s1 = Inr s2" and t2: "trained (concat (map calls xs)) s1 s2"
    by auto
  from trained_append [OF t1 t2] b f show ?case by simp
qed

lemma map_of_mutate:
  "map_of (mutate k f d) = (map_of d)(k := map_option f (map_of d k))"
  by (induction d) (auto simp: fun_eq_iff)

lemma swap_loop_skips:
  "mapE (swap_in_level level) (map (\<lambda>(k, v). PyStr k) d) = Inr (map (\<lambda>(k, v). PyStr k) d)"
  by (induction d) (auto simp: swap_in_level_def)

lemma store_level_result:
  assumes "map_of (node_dict (G s)) nodename = Some (DecisionNode n)" and "LevelCPT n = Some lc"
  shows "store_level nodename level trained_table False s =
           Inr (s\<lparr>G := upd_node nodename
                        (\<lambda>n. n\<lparr>LevelCPT := Some (lc(level_key level \<mapsto> fresh (mem s)))\<rparr>) (G s),
                  mem := (mem s)\<lparr>cells := (cells (mem s))(fresh (mem s) := trained_table),
                                fresh := Suc (fresh (mem s))\<rparr>\<rparr>)"
  using assms by (simp add: store_level_def alloc_def lookup_key_def attr_def Let_def)

lemma trained_one:
  assumes n: "map_of (node_dict (G s)) nodename = Some (DecisionNode n)" and lc: "LevelCPT n = Some lc"
    and g: "G s1 = upd_node nodename (\<lambda>n. n\<lparr>LevelCPT := Some (lc(level_key level \<mapsto> a))\<rparr>) (G s)"
    and same: "logit s1 = logit s" "high_level s1 = high_level s"
    and out: "stdout s1 = stdout s @ [training_msg nodename level]"
  shows "trained [(nodename, level)] s s1"
proof -
  let ?n1 = "n\<lparr>LevelCPT := Some (lc(level_key level \<mapsto> a))\<rparr>"
  have m: "map_of (node_dict (G s1)) = (map_of (node_dict (G s)))(nodename \<mapsto> DecisionNode ?n1)"
    using n by (simp add: g upd_node_def map_of_mutate upd_gnode_def)
  have r: "ready s1 nm = ready s nm" for nm
    using n lc same by (auto simp: ready_def m)
  have nl: "node_level s1 nm = node_level s nm" for nm
    using n by (simp add: node_level_def m)
  have "players (G s1) = players (G s)" "partition (G s1) = partition (G s)"
    by (simp_all add: g upd_node_def)
  with r nl same have sc: "same_config s s1" by (simp add: same_config_def)
  have le: "level_entry s1 nm l = (if nm = nodename \<and> l = level then Some a else level_entry s nm l)" for nm l
    using n lc by (simp add: level_entry_def m)
  from sc out le show ?thesis by (simp add: trained_def)
qed

lemma train_node_trained:
  assumes "ready s nodename"
  shows "\<exists>s1. train_node mceu nodename level False s = Inr s1 \<and> trained [(nodename, level)] s s1"
proof -
  from assms obtain n vN vtol vdelta lc where n: "map_of (node_dict (G s)) nodename = Some (DecisionNode n)"
    and a: "N n = Some vN" "tol n = Some vtol" "delta n = Some vdelta" and lc: "LevelCPT n = Some lc"
    and b: "logit s \<longrightarrow> beta n \<noteq> None"
    by (auto simp: ready_def)
  let ?s0 = "s\<lparr>stdout := stdout s @ [training_msg nodename level]\<rparr>"
  let ?eu = "mceu (G s) (mem s) nodename vN vtol vdelta"
  have n0: "map_of (node_dict (G ?s0)) nodename = Some (DecisionNode n)" using n by simp
  show ?thesis
  proof (cases "logit s")
    case False
    have "train_node mceu nodename level False s = store_level nodename level (convert_2_pureCPT ?eu) False ?s0"
      using n a False by (simp add: train_node_def swap_loop_skips lookup_key_def attr_def Let_def)
    also note store_level_result [OF n0 lc]
    finally obtain s1 where r: "train_node mceu nodename level False s = Inr s1"
      and g: "G s1 = upd_node nodename (\<lambda>n. n\<lparr>LevelCPT := Some (lc(level_key level \<mapsto> fresh (mem s)))\<rparr>) (G s)"
      and o: "logit s1 = logit s" "high_level s1 = high_level s" "stdout s1 = stdout s @ [training_msg nodename level]"
      by simp
    from trained_one [OF n lc g o] r show ?thesis by blast
  next
    case True
    with b obtain vb where vb: "beta n = Some vb" by auto
    have "train_node mceu nodename level False s = store_level nodename level (logit_CPT vb ?eu) False ?s0"
      using n a True vb by (simp add: train_node_def swap_loop_skips lookup_key_def attr_def Let_def)
    also note store_level_result [OF n0 lc]
    finally obtain s1 where r: "train_node mceu nodename level False s = Inr s1"
      and g: "G s1 = upd_node nodename (\<lambda>n. n\<lparr>LevelCPT := Some (lc(level_key level \<mapsto> fresh (mem s)))\<rparr>) (G s)"
      and o: "logit s1 = logit s" "high_level s1 = high_level s" "stdout s1 = stdout s @ [training_msg nodename level]"
      by simp
    from trained_one [OF n lc g o] r show ?thesis by blast
  qed
qed

lemma same_config_sym_facts:
  assumes "same_config s0 s"
  shows "players (G s) = players (G s0)" "partition (G s) = partition (G s0)"
    "high_level s = high_level s0" "ready s nm = ready s0 nm" "node_level s nm = node_level s0 nm"
  using assms by (simp_all add: same_config_def)

lemma train_nodes_trained:
  assumes "\<forall>nm\<in>set ns. ready s0 nm" and "same_config s0 s"
  shows "\<exists>s1. forE (\<lambda>s2 controlled. train_node mceu controlled level False s2) ns s = Inr s1 \<and>
           trained (map (\<lambda>nm. (nm, level)) ns) s s1"
proof -
  have "\<exists>s1. forE (\<lambda>s2 controlled. train_node mceu controlled level False s2) ns s = Inr s1 \<and>
           trained (concat (map (\<lambda>nm. [(nm, level)]) ns)) s s1"
  proof (rule forE_trained [OF _ assms(2)])
    fix s2 x assume "x \<in> set ns" and "same_config s0 s2"
    with assms(1) have "ready s2 x" by (simp add: same_config_sym_facts)
    then show "\<exists>s1. train_node mceu x level False s2 = Inr s1 \<and> trained [(x, level)] s2 s1"
      by (rule train_node_trained)
  qed
  moreover have "concat (map (\<lambda>nm. [(nm, level)]) ns) = map (\<lambda>nm. (nm, level)) ns"
    by (induction ns) auto
  ultimately show ?thesis by simp
qed

lemma train_all_trained:
  assumes "configured s0" and "same_config s0 s"
  shows "\<exists>s1. train_all mceu level s = Inr s1 \<and>
           trained (map (\<lambda>nm. (nm, level)) (controlled_nodes s0)) s s1"
proof -
  let ?calls = "\<lambda>pl. map (\<lambda>nm. (nm, level))
                  (case map_of (partition (G s0)) pl of Some ns \<Rightarrow> ns | None \<Rightarrow> [])"
  let ?body = "\<lambda>s1 pl. bindE (lookup_key (partition (G s1)) pl) (\<lambda>node_set.
                 forE (\<lambda>s2 controlled. train_node mceu controlled level False s2) node_set s1)"
  have "\<exists>s1. forE ?body (players (G s0)) s = Inr s1 \<and>
          trained (concat (map ?calls (players (G s0)))) s s1"
  proof (rule forE_trained [OF _ assms(2)])
    fix s2 pl assume pl: "pl \<in> set (players (G s0))" and sc: "same_config s0 s2"
    from assms(1) pl obtain ns where ns: "map_of (partition (G s0)) pl = Some ns"
      and r: "\<forall>nm\<in>set ns. ready s0 nm" by (auto simp: configured_def)
    from train_nodes_trained [OF r sc, of mceu level] ns sc
    show "\<exists>s1. ?body s2 pl = Inr s1 \<and> trained (?calls pl) s2 s1"
      by (simp add: lookup_key_def same_config_sym_facts)
  qed
  moreover have "concat (map ?calls (players (G s0))) = map (\<lambda>nm. (nm, level)) (controlled_nodes s0)"
    by (simp add: controlled_nodes_def map_concat comp_def)
  ultimately show ?thesis using assms(2) by (simp add: train_all_def same_config_sym_facts)
qed

lemma train_top_node_trained:
  assumes "ready s0 nm" and "same_config s0 s"
  shows "\<exists>s1. train_top_node mceu s nm = Inr s1 \<and>
           trained (if node_level s0 nm = Some (high_level s0) then [(nm, high_level s0)] else []) s s1"
proof -
  from assms have r: "ready s nm" by (simp add: same_config_sym_facts)
  then obtain n lv where n: "map_of (node_dict (G s)) nm = Some (DecisionNode n)" and lv: "Level n = Some lv"
    by (auto simp: ready_def)
  then have nl: "node_level s nm = Some lv" by (simp add: node_level_def)
  with assms(2) have nl0: "node_level s0 nm = Some lv" by (simp add: same_config_sym_facts)
  have hl: "high_level s = high_level s0" using assms(2) by (simp add: same_config_sym_facts)
  show ?thesis
  proof (cases "lv = high_level s")
    case True
    with train_node_trained [OF r, of mceu "high_level s"] n lv nl0 hl show ?thesis
      by (simp add: train_top_node_def lookup_key_def attr_def)
  next
    case False
    with n lv nl0 hl show ?thesis
      by (simp add: train_top_node_def lookup_key_def attr_def trained_Nil)
  qed
qed

lemma train_top_trained:
  assumes "configured s0" and "same_config s0 s"
  shows "\<exists>s1. train_top mceu s = Inr s1 \<and>
           trained (map (\<lambda>nm. (nm, high_level s0))
                      (filter (\<lambda>nm. node_level s0 nm = Some (high_level s0)) (controlled_nodes s0))) s s1"
proof -
  let ?one = "\<lambda>nm. if node_level s0 nm = Some (high_level s0) then [(nm, high_level s0)] else []"
  let ?calls = "\<lambda>pl. concat (map ?one (case map_of (partition (G s0)) pl of Some ns \<Rightarrow> ns | None \<Rightarrow> []))"
  let ?body = "\<lambda>s1 pl. bindE (lookup_key (partition (G s1)) pl) (\<lambda>node_set.
                 forE (train_top_node mceu) node_set s1)"
  have "\<exists>s1. forE ?body (players (G s0)) s = Inr s1 \<and>
          trained (concat (map ?calls (players (G s0)))) s s1"
  proof (rule forE_trained [OF _ assms(2)])
    fix s2 pl assume pl: "pl \<in> set (players (G s0))" and sc: "same_config s0 s2"
    from assms(1) pl obtain ns where ns: "map_of (partition (G s0)) pl = Some ns"
      and r: "\<forall>nm\<in>set ns. ready s0 nm" by (auto simp: configured_def)
    have "\<exists>s1. forE (train_top_node mceu) ns s2 = Inr s1 \<and> trained (concat (map ?one ns)) s2 s1"
    proof (rule forE_trained [OF _ sc])
      fix s3 x assume "x \<in> set ns" and "same_config s0 s3"
      with r show "\<exists>s1. train_top_node mceu s3 x = Inr s1 \<and> trained (?one x) s3 s1"
        by (intro train_top_node_trained) auto
    qed
    with ns sc show "\<exists>s1. ?body s2 pl = Inr s1 \<and> trained (?calls pl) s2 s1"
      by (simp add: lookup_key_def same_config_sym_facts)
  qed
  moreover have "concat (map ?one xs) = map (\<lambda>nm. (nm, high_level s0))
        (filter (\<lambda>nm. node_level s0 nm = Some (high_level s0)) xs)" for xs
    by (induction xs) auto
  then have "concat (map ?calls (players (G s0))) = map (\<lambda>nm. (nm, high_level s0))
        (filter (\<lambda>nm. node_level s0 nm = Some (high_level s0)) (controlled_nodes s0))"
    by (simp add: controlled_nodes_def filter_concat map_concat comp_def)
  ultimately show ?thesis using assms(2) by (simp add: train_top_def same_config_sym_facts)
qed

lemma solve_game_trained:
  assumes "configured s"
  shows "\<exists>s1. solve_game mceu setCPT s = (if setCPT then promote_all s1 else Inr s1) \<and>
           trained (expected_calls s) s s1"
proof -
  have "\<exists>s1. forE (\<lambda>s1 level. train_all mceu level s1) [1..high_level s - 1] s = Inr s1 \<and>
          trained (concat (map (\<lambda>level. map (\<lambda>nm. (nm, level)) (controlled_nodes s))
                             [1..high_level s - 1])) s s1"
    by (rule forE_trained [OF _ same_config_refl]) (rule train_all_trained [OF assms])
  then obtain s1 where f: "forE (\<lambda>s1 level. train_all mceu level s1) [1..high_level s - 1] s = Inr s1"
    and t1: "trained (concat (map (\<lambda>level. map (\<lambda>nm. (nm, level)) (controlled_nodes s))
                             [1..high_level s - 1])) s s1"
    by auto
  from t1 have sc: "same_config s s1" by (simp add: trained_def)
  from train_top_trained [OF assms sc, of mceu] obtain s2 where t: "train_top mceu s1 = Inr s2"
    and t2: "trained (map (\<lambda>nm. (nm, high_level s))
                      (filter (\<lambda>nm. node_level s nm = Some (high_level s)) (controlled_nodes s))) s1 s2"
    by auto
  from trained_append [OF t1 t2] have "trained (expected_calls s) s s2" by (simp add: expected_calls_def)
  with f t show ?thesis by (auto simp: solve_game_def)
qed

text \<open>
  Claim C3. On a configured session \<open>solve_game\<close> runs both training phases to their end,
  and what it printed (one line per call of \<open>train_node\<close>) is: for each level from 1 to
  \<open>high_level - 1\<close> in turn, every node once, all of one level before any of the next;
  then, at \<open>high_level\<close>, the nodes whose target level is \<open>high_level\<close>, and no others.
  Every call left its \<open>Level<level>\<close> entry, no other entry changed, and a node whose target
  level is not \<open>high_level\<close> has the \<open>Level<high_level>\<close> entry it had before (none, if it
  had none).
\<close>

theorem solve_game_training_order:
  assumes "configured s"
  shows "\<exists>s1. solve_game mceu setCPT s = (if setCPT then promote_all s1 else Inr s1) \<and>
           stdout s1 = stdout s @ map (\<lambda>(nodename, level). training_msg nodename level) (expected_calls s) \<and>
           (\<forall>nodename level. (nodename, level) \<in> set (expected_calls s) \<longrightarrow>
              level_entry s1 nodename level \<noteq> None) \<and>
           (\<forall>nodename level. (nodename, level) \<notin> set (expected_calls s) \<longrightarrow>
              level_entry s1 nodename level = level_entry s nodename level) \<and>
           (\<forall>nodename. node_level s nodename \<noteq> Some (high_level s) \<longrightarrow>
              level_entry s1 nodename (high_level s) = level_entry s nodename (high_level s))"
proof -
  from solve_game_trained [OF assms, of mceu setCPT] obtain s1
    where r: "solve_game mceu setCPT s = (if setCPT then promote_all s1 else Inr s1)"
      and t: "trained (expected_calls s) s s1" by auto
  have "(nm, high_level s) \<notin> set (expected_calls s)" if "node_level s nm \<noteq> Some (high_level s)" for nm
    using that by (auto simp: expected_calls_def)
  with t have "\<forall>nm. node_level s nm \<noteq> Some (high_level s) \<longrightarrow>
              level_entry s1 nm (high_level s) = level_entry s nm (high_level s)"
    by (simp add: trained_def)
  with r t show ?thesis unfolding trained_def by blast
qed

lemma digit_char_values:
  "digit_char 0 = CHR ''0''" "digit_char 1 = CHR ''1''" "digit_char 2 = CHR ''2''"
  "digit_char 3 = CHR ''3''" "digit_char (Suc 0) = CHR ''1''"
  by (simp_all add: digit_char_def char_of_def bit_Suc_0_iff)

lemma level_key_0: "level_key 0 = ''Level0''"
  by (simp add: level_key_def str_int_def str_nat.simps digit_char_values)

lemma ex_init: "BestResponse_init ex_game ex_mem ex_specs False = Inr ex_session"
  by (simp add: BestResponse_init_def set_new_attributes_def set_attributes_node_def set_L0_CPT_def
      set_L0_node_def ex_game_def ex_specs_def ex_spec1_def ex_spec2_def ex_session_def lookup_key_def upd_node_def
      upd_gnode_def attr_def uniformCPT_def uniform_array_def zeros_def alloc_def ex_D1_def ex_D2_def
      ex_mem_def Let_def numeral_2_eq_2)

lemma ex_ready: "ready ex_session ''D1''" "ready ex_session ''D2''"
  by (simp_all add: ready_def ex_session_def del: not_None_eq)

lemma ex_configured: "configured ex_session"
proof -
  have "players (G ex_session) = [''1'', ''2'']"
    "map_of (partition (G ex_session)) ''1'' = Some [''D1'']"
    "map_of (partition (G ex_session)) ''2'' = Some [''D2'']"
    by (simp_all add: ex_session_def)
  with ex_ready show ?thesis by (simp add: configured_def)
qed

lemma ex_stdout: "stdout ex_session = []"
  by (simp add: ex_session_def)

lemma ex_controlled: "controlled_nodes ex_session = [''D1'', ''D2'']"
  by (simp add: controlled_nodes_def ex_session_def)

lemma ex_node_levels: "node_level ex_session ''D1'' = Some 1" "node_level ex_session ''D2'' = Some 2"
  by (simp_all add: node_level_def ex_session_def ex_D1_def ex_D2_def)

lemma ex_high_level: "high_level ex_session = 2"
  by (simp add: ex_session_def)

lemma ex_expected_calls: "expected_calls ex_session = [(''D1'', 1), (''D2'', 1), (''D2'', 2)]"
  by (simp add: expected_calls_def ex_controlled ex_node_levels ex_high_level upto.simps)

lemma ex_level_entries:
  "level_entry ex_session ''D1'' 2 = None"
  by (simp add: level_entry_def ex_session_def ex_D1_def level_key_def str_int_def str_nat.simps
      digit_char_values)

lemma training_msgs:
  "training_msg ''D1'' 1 = ''Training D1 at level 1''"
  "training_msg ''D2'' 1 = ''Training D2 at level 1''"
  "training_msg ''D2'' 2 = ''Training D2 at level 2''"
  "training_msg ''D1'' 2 = ''Training D1 at level 2''"
  by (simp_all add: training_msg_def str_int_def str_nat.simps digit_char_values)

theorem solve_game_training_order_witness:
  "\<exists>s1. solve_game ex_mceu False ex_session = Inr s1 \<and>
     stdout s1 = [''Training D1 at level 1'', ''Training D2 at level 1'', ''Training D2 at level 2''] \<and>
     level_entry s1 ''D1'' 1 \<noteq> None \<and> level_entry s1 ''D2'' 1 \<noteq> None \<and>
     level_entry s1 ''D2'' 2 \<noteq> None \<and> level_entry s1 ''D1'' 2 = None"
proof -
  from solve_game_training_order [OF ex_configured, of ex_mceu False] obtain s1
    where r: "solve_game ex_mceu False ex_session = Inr s1"
      and o: "stdout s1 = stdout ex_session @
                map (\<lambda>(nodename, level). training_msg nodename level) (expected_calls ex_session)"
      and w: "\<forall>nodename level. (nodename, level) \<in> set (expected_calls ex_session) \<longrightarrow>
                level_entry s1 nodename level \<noteq> None"
      and k: "\<forall>nodename. node_level ex_session nodename \<noteq> Some (high_level ex_session) \<longrightarrow>
                level_entry s1 nodename (high_level ex_session) =
                level_entry ex_session nodename (high_level ex_session)"
    by auto
  from o have "stdout s1 = [''Training D1 at level 1'', ''Training D2 at level 1'', ''Training D2 at level 2'']"
    by (simp add: ex_expected_calls training_msgs ex_stdout)
  moreover from w have "level_entry s1 ''D1'' 1 \<noteq> None" "level_entry s1 ''D2'' 1 \<noteq> None"
    "level_entry s1 ''D2'' 2 \<noteq> None"
    by (simp_all add: ex_expected_calls)
  moreover from k [rule_format, of "''D1''"] have "level_entry s1 ''D1'' 2 = None"
    by (simp add: ex_node_levels ex_high_level ex_level_entries)
  ultimately show ?thesis using r by blast
qed

text \<open>
  Claim C8 as stated fails: the constructor, given for \<open>D2\<close> a prior of shape \<open>[3]\<close>
  while the CPT of \<open>D2\<close> has shape \<open>[2]\<close>, returns a session (no error) in which the
  \<open>Level0\<close> entry of \<open>D2\<close> is that array.
\<close>

theorem mismatched_prior_stored:
  "BestResponse_init ex_game ex_mem ex_specs False = Inr ex_session \<and>
   map_option shape (node_CPT ex_session ''D2'') = Some [2] \<and>
   level_entry ex_session ''D2'' 0 = Some 2 \<and>
   cells (mem ex_session) 2 = \<lparr>shape = [3], data = [1, 0, 0]\<rparr>"
  by (simp add: ex_init node_CPT_def level_entry_def)
     (simp add: ex_session_def ex_D2_def ex_mem_def level_key_0)

text \<open>
  Claim C8, as the code has it: in level-0 seeding, for a node without a \<open>Level0\<close> entry
  whose \<open>L0Dist\<close> is an array, the step stores that very array as the node's \<open>Level0\<close>
  entry, whatever its shape, and changes no array.
\<close>

theorem explicit_prior_stored_unchecked:
  assumes "map_of (node_dict (G s)) nodename = Some (DecisionNode n)"
    and "LevelCPT n = Some lc" and "lc ''Level0'' = None"
    and "map_of (spec_nodes ps) nodename = Some ns" and "spec_L0Dist ns = L0Array a"
  shows "\<exists>s1. set_L0_node (pl, ps) s nodename = Inr s1 \<and>
           level_entry s1 nodename 0 = Some a \<and> mem s1 = mem s"
proof -
  let ?s1 = "s\<lparr>G := upd_node nodename (\<lambda>n. n\<lparr>LevelCPT := Some (lc(''Level0'' \<mapsto> a))\<rparr>) (G s)\<rparr>"
  have "set_L0_node (pl, ps) s nodename = Inr ?s1"
    using assms by (simp add: set_L0_node_def lookup_key_def attr_def)
  moreover have "level_entry ?s1 nodename 0 = Some a"
    using assms(1)
    by (simp add: level_entry_def upd_node_def map_of_mutate upd_gnode_def) (simp add: level_key_0)
  ultimately show ?thesis by simp
qed

theorem explicit_prior_stored_unchecked_witness:
  "\<exists>s1. set_L0_node (''2'', ex_spec2) ex_attributed ''D2'' = Inr s1 \<and>
     level_entry s1 ''D2'' 0 = Some 2 \<and> mem s1 = mem ex_attributed"
proof -
  let ?n = "ex_D2\<lparr>Level := Some 2, delta := Some (1/2), tol := Some 1,
                   N := Some 10, LevelCPT := Some Map.empty\<rparr>"
  have a: "map_of (node_dict (G ex_attributed)) ''D2'' = Some (DecisionNode ?n)"
    by (simp add: ex_attributed_def)
  have b: "LevelCPT ?n = Some Map.empty" by simp
  have c: "map_of (spec_nodes ex_spec2) ''D2''
             = Some \<lparr>spec_tol = 1, spec_N = 10, spec_L0Dist = L0Array 2, spec_beta = None\<rparr>"
    by (simp add: ex_spec2_def)
  show ?thesis
    by (rule explicit_prior_stored_unchecked [OF a b _ c]) simp_all
qed

lemma ex_level1_absent:
  "level_entry ex_session ''D1'' 1 = None" "level_entry ex_session ''D2'' 1 = None"
  by (simp_all add: level_entry_def ex_session_def ex_D1_def ex_D2_def level_key_def str_int_def
      str_nat.simps digit_char_values)

text \<open>
  Claim C1 fails on the code: \<open>train_node\<close> for \<open>D1\<close> at level 2, on the session the
  constructor returns (no node has a \<open>Level1\<close> entry), raises nothing: it prints its line
  and stores a \<open>Level2\<close> entry, the pure policy of the utilities the estimator computed
  from the live CPT of \<open>D1\<close>. The loop that should swap the level-1 policies in runs over
  the keys of the dictionary (\<open>swap_loop_skips\<close>).
\<close>

theorem train_node_skips_lower_level:
  "level_entry ex_session ''D1'' 1 = None \<and> level_entry ex_session ''D2'' 1 = None \<and>
   map_sum id (\<lambda>s1. (stdout s1, map_option (cells (mem s1)) (level_entry s1 ''D1'' 2)))
     (train_node ex_mceu ''D1'' 2 False ex_session)
   = Inr ([''Training D1 at level 2''], Some \<lparr>shape = [2], data = [0, 1]\<rparr>)"
proof -
  let ?n = "ex_D1\<lparr>Level := Some 1, delta := Some (1/2), tol := Some 1,
                   N := Some 10, LevelCPT := Some [''Level0'' \<mapsto> 3]\<rparr>"
  let ?s0 = "ex_session\<lparr>stdout := stdout ex_session @ [training_msg ''D1'' 2]\<rparr>"
  have n: "map_of (node_dict (G ex_session)) ''D1'' = Some (DecisionNode ?n)"
    by (simp add: ex_session_def)
  have eu: "ex_mceu (G ex_session) (mem ex_session) ''D1'' 10 1 (1/2) = \<lparr>shape = [2], data = [1/4, 3/4]\<rparr>"
    by (simp add: ex_mceu_def n) (simp add: ex_session_def ex_mem_def ex_D1_def)
  have cv: "convert_2_pureCPT \<lparr>shape = [2], data = [1/4, 3/4]\<rparr> = \<lparr>shape = [2], data = [0, 1]\<rparr>"
    by (simp add: convert_2_pureCPT_def rows_def row_def nrows_def last_dim_def pure_row_def
        argmax_def one_hot_def upt_conv_Cons)
  have lg: "\<not> logit ex_session" by (simp add: ex_session_def)
  have "train_node ex_mceu ''D1'' 2 False ex_session
          = store_level ''D1'' 2 \<lparr>shape = [2], data = [0, 1]\<rparr> False ?s0"
    using n lg eu cv by (simp add: train_node_def swap_loop_skips lookup_key_def attr_def Let_def)
  also have "\<dots> = Inr (?s0\<lparr>G := upd_node ''D1''
                        (\<lambda>n. n\<lparr>LevelCPT := Some ([''Level0'' \<mapsto> 3](level_key 2 \<mapsto> fresh (mem ?s0)))\<rparr>) (G ?s0),
                  mem := (mem ?s0)\<lparr>cells := (cells (mem ?s0))(fresh (mem ?s0) := \<lparr>shape = [2], data = [0, 1]\<rparr>),
                                fresh := Suc (fresh (mem ?s0))\<rparr>\<rparr>)"
  proof (rule store_level_result)
    show "map_of (node_dict (G ?s0)) ''D1'' = Some (DecisionNode ?n)" using n by simp
    show "LevelCPT ?n = Some [''Level0'' \<mapsto> 3]" by simp
  qed
  finally have "map_sum id (\<lambda>s1. (stdout s1, map_option (cells (mem s1)) (level_entry s1 ''D1'' 2)))
     (train_node ex_mceu ''D1'' 2 False ex_session)
   = Inr ([''Training D1 at level 2''], Some \<lparr>shape = [2], data = [0, 1]\<rparr>)"
    using n
    by (simp add: level_entry_def upd_node_def map_of_mutate upd_gnode_def training_msgs ex_stdout)
  with ex_level1_absent show ?thesis by (simp only: simp_thms)
qed

end
